theory Spec2Isabelle
  imports Main "HOL-Library.Word"
begin

unbundle bit_operations_syntax

section \<open>JavaScript values, property keys and raw objects\<close>

text \<open>
  The reactivity core of \<^verbatim>\<open>packages/reactivity/src\<close> (effect.ts, ref.ts, computed.ts,
  baseHandlers.ts) is embedded as functions over an explicit global state: the module-level
  variables of effect.ts, and stores for the objects the code shares by reference (effects,
  dependency sets, refs, computed refs, raw objects).

  A JavaScript value is a primitive, a reference to a raw object, a reference to one of the
  classes that carry \<^verbatim>\<open>__v_isRef = true\<close>, or a proxy created by reactive(), shallowReactive(),
  readonly() or shallowReadonly() around another value. Equality of \<open>jsval\<close> is
  \<^verbatim>\<open>Object.is\<close>: references are equal when they name the same object, there is exactly one
  proxy of a kind per target (the proxy maps of reactive.ts), and \<open>VNaN\<close> equals itself.
  Numbers are the integers and NaN; negative zero, infinities and fractions are not
  represented. A reference to a ref carries the read-only flag fields of the object it names
  (\<^verbatim>\<open>__v_isShallow\<close> of a RefImpl, \<^verbatim>\<open>__v_isReadonly\<close> of a ComputedRefImpl).
\<close>

datatype proxyKind = Reactive | ShallowReactive | Readonly | ShallowReadonly

datatype jsval =
    VUndefined
  | VNull
  | VBool bool
  | VNum int
  | VNaN
  | VStr string
  | VObj nat
  | VRefImpl nat bool
  | VComputedRef nat bool
  | VOtherRef nat
  | VProxy proxyKind jsval

text \<open>
  A property key, classified the way the code classifies it: \<open>KIdx i\<close> is the string for
  which \<^verbatim>\<open>isIntegerKey\<close> holds and \<^verbatim>\<open>Number(key)\<close> is \<open>i\<close>; \<open>KLength\<close> is the string
  \<^verbatim>\<open>'length'\<close>; \<open>KName\<close> is any other string; \<open>KIterate\<close> and \<open>KMapKeyIterate\<close> are
  the two private symbols ITERATE_KEY and MAP_KEY_ITERATE_KEY of effect.ts; \<open>KSym\<close> is any
  other symbol.
\<close>

datatype key = KIdx nat | KLength | KName string | KSym nat | KIterate | KMapKeyIterate

datatype targetType = TObject | TArray | TMap | TSet

text \<open>
  A raw object holds own data properties only (no accessors, no inherited properties).
  An array also has its \<^verbatim>\<open>length\<close>, which is an own property of every array.
\<close>

record jsobj =
  objType :: targetType
  props :: "key \<rightharpoonup> jsval"
  len :: nat

definition isArrayObj :: "jsobj \<Rightarrow> bool" where
  "isArrayObj ob = (objType ob = TArray)"

definition isMapObj :: "jsobj \<Rightarrow> bool" where
  "isMapObj ob = (objType ob = TMap)"

text \<open>\<^verbatim>\<open>target[key]\<close> on a raw object.\<close>

definition getProp :: "jsobj \<Rightarrow> key \<Rightarrow> jsval" where
  "getProp ob k =
     (if isArrayObj ob \<and> k = KLength then VNum (int (len ob))
      else case props ob k of None \<Rightarrow> VUndefined | Some v \<Rightarrow> v)"

text \<open>Modelled from the spec: \<^verbatim>\<open>hasOwn\<close> of @vue/shared, own-property membership.\<close>

definition hasOwn :: "jsobj \<Rightarrow> key \<Rightarrow> bool" where
  "hasOwn ob k = ((isArrayObj ob \<and> k = KLength) \<or> props ob k \<noteq> None)"

text \<open>Modelled from the spec: \<^verbatim>\<open>isIntegerKey\<close> of @vue/shared, read off the key's class.\<close>

fun isIntegerKey :: "key \<Rightarrow> bool" where
  "isIntegerKey (KIdx i) = True"
| "isIntegerKey k = False"

fun numberOfKey :: "key \<Rightarrow> nat" where
  "numberOfKey (KIdx i) = i"
| "numberOfKey k = 0"

text \<open>
  Modelled from the spec: \<^verbatim>\<open>hasChanged\<close> of @vue/shared, the negation of the same-value
  comparison \<^verbatim>\<open>Object.is\<close> (under which NaN equals NaN).
\<close>

definition hasChanged :: "jsval \<Rightarrow> jsval \<Rightarrow> bool" where
  "hasChanged v oldValue = (v \<noteq> oldValue)"

text \<open>
  Modelled from the spec: \<^verbatim>\<open>toRaw\<close>, \<^verbatim>\<open>isReadonly\<close>, \<^verbatim>\<open>isShallow\<close>, \<^verbatim>\<open>reactive\<close> and
  \<^verbatim>\<open>toReactive\<close> of reactive.ts. \<open>toRaw\<close> strips every proxy layer and is the identity on
  anything else; the two predicates read the flag that the proxy's handler, or the ref's own
  field, answers; \<open>reactive\<close> returns the one reactive proxy of a raw object and returns a
  value that is already a proxy (or is read-only) as it is.
\<close>

fun toRaw :: "jsval \<Rightarrow> jsval" where
  "toRaw (VProxy k v) = toRaw v"
| "toRaw v = v"

fun isReadonly :: "jsval \<Rightarrow> bool" where
  "isReadonly (VProxy k v) = (k = Readonly \<or> k = ShallowReadonly)"
| "isReadonly (VComputedRef c ro) = ro"
| "isReadonly v = False"

fun isShallow :: "jsval \<Rightarrow> bool" where
  "isShallow (VProxy k v) = (k = ShallowReactive \<or> k = ShallowReadonly)"
| "isShallow (VRefImpl r sh) = sh"
| "isShallow v = False"

fun isObject :: "jsval \<Rightarrow> bool" where
  "isObject (VObj a) = True"
| "isObject (VRefImpl r sh) = True"
| "isObject (VComputedRef c ro) = True"
| "isObject (VOtherRef r) = True"
| "isObject (VProxy k v) = True"
| "isObject v = False"

fun reactive :: "jsval \<Rightarrow> jsval" where
  "reactive (VProxy k v) = VProxy k v"
| "reactive v = (if isObject v \<and> \<not> isReadonly v then VProxy Reactive v else v)"

definition toReactive :: "jsval \<Rightarrow> jsval" where
  "toReactive v = (if isObject v then reactive v else v)"

text \<open>\<^verbatim>\<open>isRef\<close> of ref.ts: \<^verbatim>\<open>!!(r && r.__v_isRef === true)\<close>; a proxy answers for its target.\<close>

fun isRef :: "jsval \<Rightarrow> bool" where
  "isRef (VRefImpl r sh) = True"
| "isRef (VComputedRef c ro) = True"
| "isRef (VOtherRef r) = True"
| "isRef (VProxy k v) = isRef v"
| "isRef v = False"

section \<open>The global state of effect.ts and the object stores\<close>

text \<open>
  A dependency set (\<^verbatim>\<open>Dep\<close>) is a JavaScript \<^verbatim>\<open>Set\<close> of effects, kept as the list of its
  members in insertion order, with the two marker fields \<^verbatim>\<open>w\<close> and \<^verbatim>\<open>n\<close> (32-bit
  integers under JavaScript's bitwise operators).
\<close>

record dep =
  subs :: "nat list"
  wbits :: "32 word"
  nbits :: "32 word"

record effect =
  active :: bool
  deps :: "nat list"
  parent :: "nat option"
  allowRecurse :: bool

record refImpl =
  ref_value :: jsval
  ref_rawValue :: jsval
  ref_dep :: "nat option"
  ref_isShallow :: bool

record computedRefImpl =
  c_dep :: "nat option"
  c_value :: jsval
  c_effect :: nat
  c_dirty :: bool
  c_cacheable :: bool

text \<open>What \<^verbatim>\<open>console.warn\<close> received: the operation, the key and the target.\<close>

datatype warning = SetFailedReadonly key nat | DeleteFailedReadonly key nat

record state =
  targetMap :: "nat \<Rightarrow> (key \<times> nat) list option"
  effectTrackDepth :: int
  trackOpBit :: "32 word"
  activeEffect :: "nat option"
  shouldTrack :: bool
  trackStack :: "bool list"
  effects :: "nat \<Rightarrow> effect"
  depStore :: "nat \<Rightarrow> dep"
  nextDep :: nat
  refs :: "nat \<Rightarrow> refImpl"
  nextRef :: nat
  computeds :: "nat \<Rightarrow> computedRefImpl"
  heap :: "nat \<Rightarrow> jsobj"
  console :: "warning list"

text \<open>
  A call either returns a value, throws, or never returns; the state it leaves is kept in
  the first two cases (JavaScript does not roll back).
\<close>

datatype 'a result = Returned 'a state | Threw jsval state | NoReturn

definition andThen :: "'a result \<Rightarrow> ('a \<Rightarrow> state \<Rightarrow> 'b result) \<Rightarrow> 'b result" where
  "andThen r f = (case r of Returned a s \<Rightarrow> f a s | Threw x s \<Rightarrow> Threw x s | NoReturn \<Rightarrow> NoReturn)"

text \<open>\<^verbatim>\<open>try { ... } finally { ... }\<close> with a finally block that only assigns.\<close>

definition tryFinally :: "'a result \<Rightarrow> (state \<Rightarrow> state) \<Rightarrow> 'a result" where
  "tryFinally r fin =
     (case r of Returned a s \<Rightarrow> Returned a (fin s) | Threw x s \<Rightarrow> Threw x (fin s) | NoReturn \<Rightarrow> NoReturn)"

text \<open>
  What the core calls and does not define is opaque, given by an environment. User code:
  the function an effect wraps, its scheduler and its onStop hook (indexed by the effect),
  the setter of a computed ref (indexed by the computed ref), and the \<^verbatim>\<open>value\<close> setter of
  any other ref-like object. JavaScript built-ins: \<^verbatim>\<open>Reflect.set\<close>,
  \<^verbatim>\<open>Reflect.deleteProperty\<close>, and the comparison \<^verbatim>\<open>key >= newValue\<close> of \<^verbatim>\<open>trigger\<close>, which
  answers or throws (a symbol cannot be converted to a number).
  The development-only hooks onTrack and onTrigger are not modelled.
\<close>

record env =
  fn :: "nat \<Rightarrow> state \<Rightarrow> jsval result"
  scheduler :: "nat \<Rightarrow> (state \<Rightarrow> jsval result) option"
  onStop :: "nat \<Rightarrow> (state \<Rightarrow> jsval result) option"
  setter :: "nat \<Rightarrow> jsval \<Rightarrow> state \<Rightarrow> jsval result"
  otherSetValue :: "jsval \<Rightarrow> jsval \<Rightarrow> state \<Rightarrow> jsval result"
  reflectSet :: "nat \<Rightarrow> key \<Rightarrow> jsval \<Rightarrow> jsval \<Rightarrow> state \<Rightarrow> bool result"
  reflectDeleteProperty :: "nat \<Rightarrow> key \<Rightarrow> state \<Rightarrow> bool result"
  geq :: "key \<Rightarrow> jsval \<Rightarrow> jsval + bool"

definition maxMarkerBits :: int where
  "maxMarkerBits = 30"

text \<open>\<^verbatim>\<open>1 << d\<close>: JavaScript takes the shift count modulo 32 and yields a 32-bit integer.\<close>

definition shl1 :: "int \<Rightarrow> 32 word" where
  "shl1 d = push_bit (nat (d mod 32)) 1"

section \<open>dep.ts\<close>

text \<open>
  Modelled from the spec: dep.ts is not among the sources. \<open>createDep\<close> allocates a set
  holding the given effects once each with both marker fields zero; \<open>wasTracked\<close> and
  \<open>newTracked\<close> test the bit of the current tracking generation (\<^verbatim>\<open>(dep.w & trackOpBit) > 0\<close>);
  \<open>initDepMarkers\<close> marks every set of the effect as tracked before; \<open>finalizeDepMarkers\<close>
  removes the effect from each set that was tracked before and not in this run, keeps the
  others, and clears the generation's bit in both fields.
\<close>

fun setOf :: "nat list \<Rightarrow> nat list" where
  "setOf [] = []"
| "setOf (x # xs) = x # filter (\<lambda>y. y \<noteq> x) (setOf xs)"

definition createDep :: "nat list \<Rightarrow> state \<Rightarrow> nat \<times> state" where
  "createDep effs s =
     (nextDep s,
      s\<lparr>depStore := (depStore s)(nextDep s := \<lparr>subs = setOf effs, wbits = 0, nbits = 0\<rparr>),
        nextDep := Suc (nextDep s)\<rparr>)"

definition wasTracked :: "state \<Rightarrow> nat \<Rightarrow> bool" where
  "wasTracked s d = (0 < sint (wbits (depStore s d) AND trackOpBit s))"

definition newTracked :: "state \<Rightarrow> nat \<Rightarrow> bool" where
  "newTracked s d = (0 < sint (nbits (depStore s d) AND trackOpBit s))"

definition depAdd :: "nat \<Rightarrow> nat \<Rightarrow> state \<Rightarrow> state" where
  "depAdd d e s =
     (if e \<in> set (subs (depStore s d)) then s
      else s\<lparr>depStore := (depStore s)(d := (depStore s d)\<lparr>subs := subs (depStore s d) @ [e]\<rparr>)\<rparr>)"

definition depDelete :: "nat \<Rightarrow> nat \<Rightarrow> state \<Rightarrow> state" where
  "depDelete d e s =
     s\<lparr>depStore := (depStore s)(d := (depStore s d)\<lparr>subs := filter (\<lambda>x. x \<noteq> e) (subs (depStore s d))\<rparr>)\<rparr>"

definition setWasTracked :: "nat \<Rightarrow> state \<Rightarrow> state" where
  "setWasTracked d s =
     s\<lparr>depStore := (depStore s)(d := (depStore s d)\<lparr>wbits := wbits (depStore s d) OR trackOpBit s\<rparr>)\<rparr>"

definition initDepMarkers :: "nat \<Rightarrow> state \<Rightarrow> state" where
  "initDepMarkers e s = fold setWasTracked (deps (effects s e)) s"

definition clearBits :: "nat \<Rightarrow> state \<Rightarrow> state" where
  "clearBits d s =
     s\<lparr>depStore := (depStore s)(d := (depStore s d)
         \<lparr>wbits := wbits (depStore s d) AND NOT (trackOpBit s),
          nbits := nbits (depStore s d) AND NOT (trackOpBit s)\<rparr>)\<rparr>"

fun finalizeLoop :: "nat \<Rightarrow> nat list \<Rightarrow> nat list \<Rightarrow> state \<Rightarrow> nat list \<times> state" where
  "finalizeLoop e [] kept s = (kept, s)"
| "finalizeLoop e (d # ds) kept s =
     (if wasTracked s d \<and> \<not> newTracked s d
      then finalizeLoop e ds kept (clearBits d (depDelete d e s))
      else finalizeLoop e ds (kept @ [d]) (clearBits d s))"

definition finalizeDepMarkers :: "nat \<Rightarrow> state \<Rightarrow> state" where
  "finalizeDepMarkers e s =
     (case finalizeLoop e (deps (effects s e)) [] s of
        (kept, s') \<Rightarrow> s'\<lparr>effects := (effects s')(e := (effects s' e)\<lparr>deps := kept\<rparr>)\<rparr>)"

section \<open>effect.ts\<close>

text \<open>
  The \<^verbatim>\<open>while (parent)\<close> loop of \<^verbatim>\<open>ReactiveEffect.run\<close>: it walks the parent chain from
  the active effect and answers whether \<open>this\<close> is on it. On a cyclic chain that does not
  hold \<open>this\<close> the loop never ends, which is the value \<open>None\<close>.
\<close>

partial_function (option) onParentChain :: "(nat \<Rightarrow> effect) \<Rightarrow> nat \<Rightarrow> nat option \<Rightarrow> bool option" where
  "onParentChain es this p =
     (case p of
        None \<Rightarrow> Some False
      | Some q \<Rightarrow> if q = this then Some True else onParentChain es this (parent (es q)))"

declare onParentChain.simps [code]

definition cleanupEffect :: "nat \<Rightarrow> state \<Rightarrow> state" where
  "cleanupEffect e s =
     (let s' = fold (\<lambda>d st. depDelete d e st) (deps (effects s e)) s
      in s'\<lparr>effects := (effects s')(e := (effects s' e)\<lparr>deps := []\<rparr>)\<rparr>)"

text \<open>The statements of the try block of \<^verbatim>\<open>run\<close> that precede the call of \<^verbatim>\<open>this.fn()\<close>.\<close>

definition runEnter :: "nat \<Rightarrow> state \<Rightarrow> state" where
  "runEnter this s =
     (let s1 = s\<lparr>effects := (effects s)(this := (effects s this)\<lparr>parent := activeEffect s\<rparr>)\<rparr>;
          s2 = s1\<lparr>activeEffect := Some this\<rparr>;
          s3 = s2\<lparr>shouldTrack := True\<rparr>;
          s4 = s3\<lparr>effectTrackDepth := effectTrackDepth s3 + 1\<rparr>;
          s5 = s4\<lparr>trackOpBit := shl1 (effectTrackDepth s4)\<rparr>
      in if effectTrackDepth s5 \<le> maxMarkerBits then initDepMarkers this s5
         else cleanupEffect this s5)"

text \<open>The finally block of \<^verbatim>\<open>run\<close>; \<open>lastShouldTrack\<close> is the local saved on entry.\<close>

definition runExit :: "nat \<Rightarrow> bool \<Rightarrow> state \<Rightarrow> state" where
  "runExit this lastShouldTrack s =
     (let s1 = (if effectTrackDepth s \<le> maxMarkerBits then finalizeDepMarkers this s else s);
          s2 = s1\<lparr>effectTrackDepth := effectTrackDepth s1 - 1\<rparr>;
          s3 = s2\<lparr>trackOpBit := shl1 (effectTrackDepth s2)\<rparr>;
          s4 = s3\<lparr>activeEffect := parent (effects s3 this)\<rparr>;
          s5 = s4\<lparr>shouldTrack := lastShouldTrack\<rparr>
      in s5\<lparr>effects := (effects s5)(this := (effects s5 this)\<lparr>parent := None\<rparr>)\<rparr>)"

definition run :: "env \<Rightarrow> nat \<Rightarrow> state \<Rightarrow> jsval result" where
  "run E this s =
     (if \<not> active (effects s this) then fn E this s
      else case onParentChain (effects s) this (activeEffect s) of
             None \<Rightarrow> NoReturn
           | Some True \<Rightarrow> Returned VUndefined s
           | Some False \<Rightarrow>
               tryFinally (fn E this (runEnter this s)) (runExit this (shouldTrack s)))"

definition stop :: "env \<Rightarrow> nat \<Rightarrow> state \<Rightarrow> unit result" where
  "stop E this s =
     (if active (effects s this) then
        andThen
          (case onStop E this of
             None \<Rightarrow> Returned VUndefined (cleanupEffect this s)
           | Some hook \<Rightarrow> hook (cleanupEffect this s))
          (\<lambda>_ s'. Returned () (s'\<lparr>effects := (effects s')(this := (effects s' this)\<lparr>active := False\<rparr>)\<rparr>))
      else Returned () s)"

definition pauseTracking :: "state \<Rightarrow> state" where
  "pauseTracking s = s\<lparr>trackStack := trackStack s @ [shouldTrack s], shouldTrack := False\<rparr>"

definition enableTracking :: "state \<Rightarrow> state" where
  "enableTracking s = s\<lparr>trackStack := trackStack s @ [shouldTrack s], shouldTrack := True\<rparr>"

definition resetTracking :: "state \<Rightarrow> state" where
  "resetTracking s =
     (if trackStack s = [] then s\<lparr>shouldTrack := True\<rparr>
      else s\<lparr>trackStack := butlast (trackStack s), shouldTrack := last (trackStack s)\<rparr>)"

text \<open>
  \<^verbatim>\<open>trackEffects\<close> dereferences \<^verbatim>\<open>activeEffect!\<close>; both callers in the sources test
  \<^verbatim>\<open>activeEffect\<close> first. Without an active effect \<^verbatim>\<open>activeEffect!.deps\<close> is a TypeError
  (the \<^verbatim>\<open>undefined\<close> that \<^verbatim>\<open>dep.add\<close> stored just before is not represented).
\<close>

definition typeError :: jsval where
  "typeError = VStr ''TypeError''"

definition trackEffects :: "nat \<Rightarrow> state \<Rightarrow> unit result" where
  "trackEffects d s =
     (let marked = (effectTrackDepth s \<le> maxMarkerBits \<and> \<not> newTracked s d);
          s1 = (if marked
                then s\<lparr>depStore := (depStore s)(d := (depStore s d)\<lparr>nbits := nbits (depStore s d) OR trackOpBit s\<rparr>)\<rparr>
                else s);
          shouldTrack' =
            (if effectTrackDepth s \<le> maxMarkerBits then marked \<and> \<not> wasTracked s1 d
             else (case activeEffect s of None \<Rightarrow> True | Some e \<Rightarrow> e \<notin> set (subs (depStore s d))))
      in if shouldTrack' then
           (case activeEffect s1 of
              None \<Rightarrow> Threw typeError s1
            | Some e \<Rightarrow>
                (let s2 = depAdd d e s1
                 in Returned () (s2\<lparr>effects := (effects s2)(e := (effects s2 e)\<lparr>deps := deps (effects s2 e) @ [d]\<rparr>)\<rparr>)))
         else Returned () s1)"

datatype trackOpTypes = GET | HAS | ITERATE

datatype triggerOpTypes = SET | ADD | DELETE | CLEAR

definition track :: "nat \<Rightarrow> trackOpTypes \<Rightarrow> key \<Rightarrow> state \<Rightarrow> unit result" where
  "track target ty k s =
     (if shouldTrack s \<and> activeEffect s \<noteq> None then
        (let s1 = (case targetMap s target of
                     None \<Rightarrow> s\<lparr>targetMap := (targetMap s)(target := Some [])\<rparr>
                   | Some m \<Rightarrow> s);
             depsMap = (case targetMap s1 target of None \<Rightarrow> [] | Some m \<Rightarrow> m)
         in case map_of depsMap k of
              Some d \<Rightarrow> trackEffects d s1
            | None \<Rightarrow>
                (case createDep [] s1 of
                   (d, s2) \<Rightarrow> trackEffects d (s2\<lparr>targetMap := (targetMap s2)(target := Some (depsMap @ [(k, d)]))\<rparr>)))
      else Returned () s)"

text \<open>
  \<^verbatim>\<open>triggerEffects\<close> over the array \<^verbatim>\<open>[...dep]\<close> taken when the loop starts. Each member is
  tested against the active effect when its turn comes.
\<close>

fun triggerEffectsOver :: "env \<Rightarrow> nat list \<Rightarrow> state \<Rightarrow> unit result" where
  "triggerEffectsOver E [] s = Returned () s"
| "triggerEffectsOver E (e # es) s =
     (if activeEffect s \<noteq> Some e \<or> allowRecurse (effects s e) then
        (case (case scheduler E e of Some sch \<Rightarrow> sch s | None \<Rightarrow> run E e s) of
           Returned v s' \<Rightarrow> triggerEffectsOver E es s'
         | Threw x s' \<Rightarrow> Threw x s'
         | NoReturn \<Rightarrow> NoReturn)
      else triggerEffectsOver E es s)"

definition triggerEffects :: "env \<Rightarrow> nat \<Rightarrow> state \<Rightarrow> unit result" where
  "triggerEffects E d s = triggerEffectsOver E (subs (depStore s d)) s"

text \<open>The \<^verbatim>\<open>depsMap.forEach\<close> of the \<^verbatim>\<open>length\<close> branch of \<^verbatim>\<open>trigger\<close>.\<close>

fun lengthDeps :: "env \<Rightarrow> jsval \<Rightarrow> (key \<times> nat) list \<Rightarrow> jsval + nat option list" where
  "lengthDeps E newValue [] = Inr []"
| "lengthDeps E newValue ((k, d) # m) =
     (if k = KLength then
        (case lengthDeps E newValue m of Inl x \<Rightarrow> Inl x | Inr ds \<Rightarrow> Inr (Some d # ds))
      else
        (case geq E k newValue of
           Inl x \<Rightarrow> Inl x
         | Inr b \<Rightarrow>
             (case lengthDeps E newValue m of
                Inl x \<Rightarrow> Inl x
              | Inr ds \<Rightarrow> Inr (if b then Some d # ds else ds))))"

text \<open>The array \<^verbatim>\<open>deps\<close> that \<^verbatim>\<open>trigger\<close> collects: one entry per pushed cell, \<open>None\<close> for \<^verbatim>\<open>undefined\<close>.\<close>

definition affectedDeps ::
  "env \<Rightarrow> state \<Rightarrow> nat \<Rightarrow> triggerOpTypes \<Rightarrow> key option \<Rightarrow> jsval \<Rightarrow> (key \<times> nat) list \<Rightarrow> jsval + nat option list" where
  "affectedDeps E s target ty k newValue depsMap =
     (if ty = CLEAR then Inr (map (\<lambda>(k', d). Some d) depsMap)
      else if k = Some KLength \<and> isArrayObj (heap s target) then lengthDeps E newValue depsMap
      else Inr
        ((case k of None \<Rightarrow> [] | Some k' \<Rightarrow> [map_of depsMap k']) @
         (case ty of
            ADD \<Rightarrow>
              (if \<not> isArrayObj (heap s target) then
                 map_of depsMap KIterate #
                 (if isMapObj (heap s target) then [map_of depsMap KMapKeyIterate] else [])
               else if (case k of None \<Rightarrow> False | Some k' \<Rightarrow> isIntegerKey k') then [map_of depsMap KLength]
               else [])
          | DELETE \<Rightarrow>
              (if \<not> isArrayObj (heap s target) then
                 map_of depsMap KIterate #
                 (if isMapObj (heap s target) then [map_of depsMap KMapKeyIterate] else [])
               else [])
          | SET \<Rightarrow> (if isMapObj (heap s target) then [map_of depsMap KIterate] else [])
          | CLEAR \<Rightarrow> [])))"

text \<open>The members of the cells that are not \<^verbatim>\<open>undefined\<close>, cell after cell.\<close>

definition effectsOf :: "state \<Rightarrow> nat option list \<Rightarrow> nat list" where
  "effectsOf s ds = concat (map (\<lambda>d. case d of None \<Rightarrow> [] | Some d' \<Rightarrow> subs (depStore s d')) ds)"

definition trigger :: "env \<Rightarrow> nat \<Rightarrow> triggerOpTypes \<Rightarrow> key option \<Rightarrow> jsval \<Rightarrow> state \<Rightarrow> unit result" where
  "trigger E target ty k newValue s =
     (case targetMap s target of
        None \<Rightarrow> Returned () s
      | Some depsMap \<Rightarrow>
          (case affectedDeps E s target ty k newValue depsMap of
             Inl x \<Rightarrow> Threw x s
           | Inr ds \<Rightarrow>
               if length ds = 1 then
                 (case hd ds of None \<Rightarrow> Returned () s | Some d \<Rightarrow> triggerEffects E d s)
               else
                 (case createDep (effectsOf s ds) s of (d, s') \<Rightarrow> triggerEffects E d s')))"

section \<open>ref.ts\<close>

text \<open>
  \<^verbatim>\<open>trackRefValue\<close> and \<^verbatim>\<open>triggerRefValue\<close> take a \<^verbatim>\<open>RefBase\<close>: an object with a
  \<^verbatim>\<open>dep\<close> field, here a RefImpl or a ComputedRefImpl.
\<close>

datatype refBase = OfRef nat | OfComputed nat

fun depOf :: "state \<Rightarrow> refBase \<Rightarrow> nat option" where
  "depOf s (OfRef r) = ref_dep (refs s r)"
| "depOf s (OfComputed c) = c_dep (computeds s c)"

fun setDep :: "refBase \<Rightarrow> nat \<Rightarrow> state \<Rightarrow> state" where
  "setDep (OfRef r) d s = s\<lparr>refs := (refs s)(r := (refs s r)\<lparr>ref_dep := Some d\<rparr>)\<rparr>"
| "setDep (OfComputed c) d s = s\<lparr>computeds := (computeds s)(c := (computeds s c)\<lparr>c_dep := Some d\<rparr>)\<rparr>"

definition trackRefValue :: "refBase \<Rightarrow> state \<Rightarrow> unit result" where
  "trackRefValue r s =
     (if shouldTrack s \<and> activeEffect s \<noteq> None then
        (case depOf s r of
           Some d \<Rightarrow> trackEffects d s
         | None \<Rightarrow> (case createDep [] s of (d, s1) \<Rightarrow> trackEffects d (setDep r d s1)))
      else Returned () s)"

definition triggerRefValue :: "env \<Rightarrow> refBase \<Rightarrow> state \<Rightarrow> unit result" where
  "triggerRefValue E r s =
     (case depOf s r of
        Some d \<Rightarrow> triggerEffects E d s
      | None \<Rightarrow> Returned () s)"

text \<open>\<^verbatim>\<open>new RefImpl(value, __v_isShallow)\<close>.\<close>

definition newRefImpl :: "jsval \<Rightarrow> bool \<Rightarrow> state \<Rightarrow> jsval \<times> state" where
  "newRefImpl v sh s =
     (VRefImpl (nextRef s) sh,
      s\<lparr>refs := (refs s)(nextRef s :=
           \<lparr>ref_value = (if sh then v else toReactive v),
            ref_rawValue = (if sh then v else toRaw v),
            ref_dep = None,
            ref_isShallow = sh\<rparr>),
        nextRef := Suc (nextRef s)\<rparr>)"

definition createRef :: "jsval \<Rightarrow> bool \<Rightarrow> state \<Rightarrow> jsval \<times> state" where
  "createRef rawValue sh s = (if isRef rawValue then (rawValue, s) else newRefImpl rawValue sh s)"

definition ref :: "jsval \<Rightarrow> state \<Rightarrow> jsval \<times> state" where
  "ref v s = createRef v False s"

definition shallowRef :: "jsval \<Rightarrow> state \<Rightarrow> jsval \<times> state" where
  "shallowRef v s = createRef v True s"

definition RefImpl_get_value :: "nat \<Rightarrow> state \<Rightarrow> jsval result" where
  "RefImpl_get_value r s = andThen (trackRefValue (OfRef r) s) (\<lambda>_ s'. Returned (ref_value (refs s' r)) s')"

definition RefImpl_set_value :: "env \<Rightarrow> nat \<Rightarrow> jsval \<Rightarrow> state \<Rightarrow> unit result" where
  "RefImpl_set_value E r newVal s =
     (let newVal' = (if ref_isShallow (refs s r) then newVal else toRaw newVal)
      in if hasChanged newVal' (ref_rawValue (refs s r)) then
           (let s1 = s\<lparr>refs := (refs s)(r := (refs s r)\<lparr>ref_rawValue := newVal'\<rparr>)\<rparr>;
                s2 = s1\<lparr>refs := (refs s1)(r := (refs s1 r)
                          \<lparr>ref_value := (if ref_isShallow (refs s1 r) then newVal' else toReactive newVal')\<rparr>)\<rparr>
            in triggerRefValue E (OfRef r) s2)
         else Returned () s)"

section \<open>computed.ts\<close>

text \<open>
  \<^verbatim>\<open>new ComputedRefImpl(getter, setter, isReadonly, isSSR)\<close> creates the effect \<open>e\<close> whose
  function is the getter (\<open>fn E e\<close>) and whose scheduler is \<open>computedScheduler\<close>, and sets
  \<^verbatim>\<open>effect.active = _cacheable = !isSSR\<close>.
\<close>

definition newComputedRefImpl :: "nat \<Rightarrow> nat \<Rightarrow> bool \<Rightarrow> state \<Rightarrow> state" where
  "newComputedRefImpl c e isSSR s =
     s\<lparr>computeds := (computeds s)(c :=
          \<lparr>c_dep = None, c_value = VUndefined, c_effect = e, c_dirty = True, c_cacheable = (\<not> isSSR)\<rparr>),
       effects := (effects s)(e :=
          \<lparr>active = (\<not> isSSR), deps = [], parent = None, allowRecurse = False\<rparr>)\<rparr>"

definition computedScheduler :: "env \<Rightarrow> nat \<Rightarrow> state \<Rightarrow> jsval result" where
  "computedScheduler E c s =
     (if \<not> c_dirty (computeds s c) then
        andThen
          (triggerRefValue E (OfComputed c)
             (s\<lparr>computeds := (computeds s)(c := (computeds s c)\<lparr>c_dirty := True\<rparr>)\<rparr>))
          (\<lambda>_ s'. Returned VUndefined s')
      else Returned VUndefined s)"

definition ComputedRefImpl_get_value :: "env \<Rightarrow> nat \<Rightarrow> state \<Rightarrow> jsval result" where
  "ComputedRefImpl_get_value E c s =
     andThen (trackRefValue (OfComputed c) s)
       (\<lambda>_ s1.
          if c_dirty (computeds s1 c) \<or> \<not> c_cacheable (computeds s1 c) then
            andThen
              (run E (c_effect (computeds s1 c))
                 (s1\<lparr>computeds := (computeds s1)(c := (computeds s1 c)\<lparr>c_dirty := False\<rparr>)\<rparr>))
              (\<lambda>v s2. Returned v (s2\<lparr>computeds := (computeds s2)(c := (computeds s2 c)\<lparr>c_value := v\<rparr>)\<rparr>))
          else Returned (c_value (computeds s1 c)) s1)"

definition ComputedRefImpl_set_value :: "env \<Rightarrow> nat \<Rightarrow> jsval \<Rightarrow> state \<Rightarrow> unit result" where
  "ComputedRefImpl_set_value E c newValue s = andThen (setter E c newValue s) (\<lambda>_ s'. Returned () s')"

section \<open>baseHandlers.ts\<close>

text \<open>The assignment \<^verbatim>\<open>oldValue.value = value\<close> of the set trap, by the class of the ref.\<close>

fun assignRefValue :: "env \<Rightarrow> jsval \<Rightarrow> jsval \<Rightarrow> state \<Rightarrow> unit result" where
  "assignRefValue E (VRefImpl r sh) v s = RefImpl_set_value E r v s"
| "assignRefValue E (VComputedRef c ro) v s = ComputedRefImpl_set_value E c v s"
| "assignRefValue E old v s = andThen (otherSetValue E old v s) (\<lambda>_ s'. Returned () s')"

text \<open>
  \<^verbatim>\<open>createSetter(shallow)\<close> is the set trap of the mutable handlers: \<open>target\<close> is the address
  of the raw object the proxy wraps, \<open>receiver\<close> the object the assignment was made on.
\<close>

definition createSetter :: "bool \<Rightarrow> env \<Rightarrow> nat \<Rightarrow> key \<Rightarrow> jsval \<Rightarrow> jsval \<Rightarrow> state \<Rightarrow> bool result" where
  "createSetter shallow E target k v receiver s =
     (let oldValue = getProp (heap s target) k
      in if isReadonly oldValue \<and> isRef oldValue \<and> \<not> isRef v then Returned False s
         else
           (let unwrap = (\<not> shallow \<and> \<not> isReadonly v \<and> \<not> isShallow v);
                v' = (if unwrap then toRaw v else v);
                oldValue' = (if unwrap then toRaw oldValue else oldValue)
            in if \<not> shallow \<and> \<not> isReadonly v \<and> \<not> isArrayObj (heap s target) \<and> isRef oldValue' \<and> \<not> isRef v'
               then andThen (assignRefValue E oldValue' v' s) (\<lambda>_ s'. Returned True s')
               else
                 (let hadKey =
                        (if isArrayObj (heap s target) \<and> isIntegerKey k
                         then numberOfKey k < len (heap s target)
                         else hasOwn (heap s target) k)
                  in andThen (reflectSet E target k v' receiver s)
                       (\<lambda>result s1.
                          if VObj target = toRaw receiver then
                            (if \<not> hadKey then
                               andThen (trigger E target ADD (Some k) v' s1) (\<lambda>_ s2. Returned result s2)
                             else if hasChanged v' oldValue' then
                               andThen (trigger E target SET (Some k) v' s1) (\<lambda>_ s2. Returned result s2)
                             else Returned result s1)
                          else Returned result s1))))"

definition deleteProperty :: "env \<Rightarrow> nat \<Rightarrow> key \<Rightarrow> state \<Rightarrow> bool result" where
  "deleteProperty E target k s =
     (let hadKey = hasOwn (heap s target) k
      in andThen (reflectDeleteProperty E target k s)
           (\<lambda>result s1.
              if result \<and> hadKey then
                andThen (trigger E target DELETE (Some k) VUndefined s1) (\<lambda>_ s2. Returned result s2)
              else Returned result s1))"

text \<open>
  \<^verbatim>\<open>readonlyHandlers\<close>: the set and deleteProperty traps. \<open>dev\<close> is the build constant
  \<^verbatim>\<open>__DEV__\<close>.
\<close>

definition readonlyHandlers_set :: "bool \<Rightarrow> nat \<Rightarrow> key \<Rightarrow> state \<Rightarrow> bool result" where
  "readonlyHandlers_set dev target k s =
     Returned True (if dev then s\<lparr>console := console s @ [SetFailedReadonly k target]\<rparr> else s)"

definition readonlyHandlers_deleteProperty :: "bool \<Rightarrow> nat \<Rightarrow> key \<Rightarrow> state \<Rightarrow> bool result" where
  "readonlyHandlers_deleteProperty dev target k s =
     Returned True (if dev then s\<lparr>console := console s @ [DeleteFailedReadonly k target]\<rparr> else s)"

text \<open>
  The function \<^verbatim>\<open>createArrayInstrumentations\<close> installs for push, pop, shift, unshift and
  splice. \<open>body\<close> is the built-in method applied to the proxy,
  \<^verbatim>\<open>toRaw(this)[key].apply(this, args)\<close>.
\<close>

definition lengthAltering :: "(state \<Rightarrow> jsval result) \<Rightarrow> state \<Rightarrow> jsval result" where
  "lengthAltering body s =
     andThen (body (pauseTracking s)) (\<lambda>res s'. Returned res (resetTracking s'))"

text \<open>
  A built-in array method works on the proxy it is applied to through the proxy's traps.
  What it does is a sequence of steps: a read of a slot, which reaches the dependency graph
  through \<^verbatim>\<open>track(target, type, key)\<close> (the get, has and ownKeys traps) or, when the get
  trap unwraps a ref, through \<^verbatim>\<open>trackRefValue\<close>; or any other operation (a write through
  the set trap, a delete, the evaluation of a computed ref), which is opaque.
\<close>

datatype step = Track nat trackOpTypes key | TrackRef refBase | Other "state \<Rightarrow> jsval result"

fun performStep :: "step \<Rightarrow> state \<Rightarrow> jsval result" where
  "performStep (Track target ty k) s = andThen (track target ty k s) (\<lambda>_ s'. Returned VUndefined s')"
| "performStep (TrackRef r) s = andThen (trackRefValue r s) (\<lambda>_ s'. Returned VUndefined s')"
| "performStep (Other f) s = f s"

fun performSteps :: "step list \<Rightarrow> state \<Rightarrow> jsval result" where
  "performSteps [] s = Returned VUndefined s"
| "performSteps (st # sts) s =
     (case performStep st s of
        Returned v s' \<Rightarrow> performSteps sts s'
      | Threw x s' \<Rightarrow> Threw x s'
      | NoReturn \<Rightarrow> NoReturn)"

text \<open>
  The built-in method makes its steps and then returns a value it computes from what it
  has reached (\<^verbatim>\<open>push\<close> returns the new length).
\<close>

definition arrayMethod :: "step list \<Rightarrow> (state \<Rightarrow> jsval) \<Rightarrow> state \<Rightarrow> jsval result" where
  "arrayMethod sts ret s = andThen (performSteps sts s) (\<lambda>_ s'. Returned (ret s') s')"

section \<open>Concrete configurations\<close>

text \<open>
  The state in which the modules are loaded: the initial values of the module variables of
  effect.ts, object stores whose entries have the field initialisers of their classes, and
  empty plain objects in the heap.
\<close>

definition initialState :: state where
  "initialState =
     \<lparr>targetMap = (\<lambda>_. None),
      effectTrackDepth = 0,
      trackOpBit = 1,
      activeEffect = None,
      shouldTrack = True,
      trackStack = [],
      effects = (\<lambda>_. \<lparr>active = True, deps = [], parent = None, allowRecurse = False\<rparr>),
      depStore = (\<lambda>_. \<lparr>subs = [], wbits = 0, nbits = 0\<rparr>),
      nextDep = 0,
      refs = (\<lambda>_. \<lparr>ref_value = VUndefined, ref_rawValue = VUndefined, ref_dep = None, ref_isShallow = False\<rparr>),
      nextRef = 0,
      computeds = (\<lambda>_. \<lparr>c_dep = None, c_value = VUndefined, c_effect = 0, c_dirty = True, c_cacheable = True\<rparr>),
      heap = (\<lambda>_. \<lparr>objType = TObject, props = Map.empty, len = 0\<rparr>),
      console = []\<rparr>"

text \<open>
  \<^verbatim>\<open>Reflect.set\<close> and \<^verbatim>\<open>Reflect.deleteProperty\<close> on objects whose properties are writable,
  configurable own data properties: the write lands on the raw object behind the receiver,
  an array index (an integer key below 4294967295) at or past an array's length
  extends it, and a number assigned to an array's length removes the array indices from it
  on (any other value assigned to the length is treated as a RangeError).
\<close>

definition isArrayIndex :: "key \<Rightarrow> bool" where
  "isArrayIndex k = (isIntegerKey k \<and> numberOfKey k < 4294967295)"

definition rangeError :: jsval where
  "rangeError = VStr ''RangeError''"

definition dataPropertySet :: "nat \<Rightarrow> key \<Rightarrow> jsval \<Rightarrow> jsval \<Rightarrow> state \<Rightarrow> bool result" where
  "dataPropertySet target k v receiver s =
     (case toRaw receiver of
        VObj a \<Rightarrow>
          (let ob = heap s a
           in if isArrayObj ob \<and> k = KLength then
                (case v of
                   VNum n \<Rightarrow>
                     if 0 \<le> n \<and> n < 2 ^ 32 then
                       Returned True
                         (s\<lparr>heap := (heap s)(a := ob
                              \<lparr>props := (\<lambda>k'. if isArrayIndex k' \<and> nat n \<le> numberOfKey k' then None else props ob k'),
                               len := nat n\<rparr>)\<rparr>)
                     else Threw rangeError s
                 | _ \<Rightarrow> Threw rangeError s)
              else
                Returned True
                  (s\<lparr>heap := (heap s)(a := ob
                       \<lparr>props := (props ob)(k \<mapsto> v),
                        len := (if isArrayObj ob \<and> isArrayIndex k \<and> len ob \<le> numberOfKey k
                                then Suc (numberOfKey k) else len ob)\<rparr>)\<rparr>))
      | _ \<Rightarrow> Returned False s)"

definition dataPropertyDelete :: "nat \<Rightarrow> key \<Rightarrow> state \<Rightarrow> bool result" where
  "dataPropertyDelete target k s =
     (if isArrayObj (heap s target) \<and> k = KLength then Returned False s
      else Returned True (s\<lparr>heap := (heap s)(target := (heap s target)\<lparr>props := (props (heap s target))(k := None)\<rparr>)\<rparr>))"

text \<open>
  \<^verbatim>\<open>key >= newValue\<close> where \<open>newValue\<close> is a number, \<^verbatim>\<open>null\<close>, a boolean, \<^verbatim>\<open>undefined\<close>
  or NaN, the key being an integer key, a symbol, or a name that does not convert to a
  number: an integer key compares by its number (\<^verbatim>\<open>null\<close> and \<^verbatim>\<open>false\<close> count as 0,
  \<^verbatim>\<open>true\<close> as 1), a symbol throws a TypeError, and a comparison with NaN on either side
  is false. This is the comparison the configurations below need: a name that is numeric
  without being an integer key (such as \<^verbatim>\<open>'1.5'\<close>) and a string or object \<open>newValue\<close> do
  not occur in them, and the properties are stated for every comparison \<open>geq\<close>.
\<close>

fun keyGeq :: "key \<Rightarrow> jsval \<Rightarrow> jsval + bool" where
  "keyGeq (KIdx i) (VNum n) = Inr (n \<le> int i)"
| "keyGeq (KIdx i) VNull = Inr True"
| "keyGeq (KIdx i) (VBool b) = Inr ((if b then 1 else 0) \<le> i)"
| "keyGeq (KSym y) v = Inl typeError"
| "keyGeq KIterate v = Inl typeError"
| "keyGeq KMapKeyIterate v = Inl typeError"
| "keyGeq k v = Inr False"

text \<open>An environment whose user code does nothing and returns \<^verbatim>\<open>undefined\<close>.\<close>

definition quietEnv :: env where
  "quietEnv =
     \<lparr>fn = (\<lambda>e s. Returned VUndefined s),
      scheduler = (\<lambda>e. None),
      onStop = (\<lambda>e. None),
      setter = (\<lambda>c v s. Returned VUndefined s),
      otherSetValue = (\<lambda>r v s. Returned VUndefined s),
      reflectSet = dataPropertySet,
      reflectDeleteProperty = dataPropertyDelete,
      geq = keyGeq\<rparr>"

text \<open>User code that counts its calls in a counter of its own, kept at a heap address.\<close>

definition bump :: "nat \<Rightarrow> state \<Rightarrow> state" where
  "bump a s = s\<lparr>heap := (heap s)(a := (heap s a)\<lparr>len := Suc (len (heap s a))\<rparr>)\<rparr>"

definition counterAt :: "nat \<Rightarrow> state \<Rightarrow> nat" where
  "counterAt a s = len (heap s a)"

text \<open>The state a call leaves, when it returns or throws.\<close>

fun stateOf :: "'a result \<Rightarrow> state option" where
  "stateOf (Returned a s) = Some s"
| "stateOf (Threw x s) = Some s"
| "stateOf NoReturn = None"

text \<open>
  \<^verbatim>\<open>const r = ref(1); effect(() => { r.value; count++ })\<close>: the ref is RefImpl 0, the
  effect is effect 0 and its counter lives at address 100. \<open>refWatched\<close> is the state after
  the effect's first run.
\<close>

definition refReaderEnv :: env where
  "refReaderEnv =
     quietEnv\<lparr>fn := (\<lambda>e s. andThen (RefImpl_get_value 0 s) (\<lambda>v s'. Returned v (bump 100 s')))\<rparr>"

definition refWatched :: state where
  "refWatched = the (stateOf (run refReaderEnv 0 (snd (ref (VNum 1) initialState))))"

text \<open>The raw object \<^verbatim>\<open>{ a: 1 }\<close> at address 1.\<close>

definition plainObjectState :: state where
  "plainObjectState =
     initialState\<lparr>heap := (heap initialState)(1 := \<lparr>objType = TObject, props = [KName ''a'' \<mapsto> VNum 1], len = 0\<rparr>)\<rparr>"

text \<open>\<open>refWatched\<close> after \<^verbatim>\<open>r.value = 2\<close>.\<close>

definition refWritten :: state where
  "refWritten = the (stateOf (RefImpl_set_value refReaderEnv 0 (VNum 2) refWatched))"



text \<open>
  \<^verbatim>\<open>() => { pauseTracking(); throw 'boom' }\<close> as the function of every effect, and the
  state in which effect 0 has been stopped.
\<close>

definition throwingEnv :: env where
  "throwingEnv = quietEnv\<lparr>fn := (\<lambda>e s. Threw (VStr ''boom'') (pauseTracking s))\<rparr>"

definition stoppedState :: state where
  "stoppedState = the (stateOf (stop quietEnv 0 initialState))"

text \<open>
  The words of the claims on \<open>triggerEffects\<close>. A subscriber is skipped when it is the
  currently active effect and its \<^verbatim>\<open>allowRecurse\<close> flag is false. A subscriber is executed
  through its scheduler if it has one and through its \<open>run\<close> otherwise. Executing a list of
  subscribers is executing them in order, up to the first that throws or does not return.
\<close>

definition skipped :: "state \<Rightarrow> nat \<Rightarrow> bool" where
  "skipped s e = (activeEffect s = Some e \<and> \<not> allowRecurse (effects s e))"

definition execute :: "env \<Rightarrow> nat \<Rightarrow> state \<Rightarrow> jsval result" where
  "execute E e s = (case scheduler E e of Some sch \<Rightarrow> sch s | None \<Rightarrow> run E e s)"

fun executeAll :: "env \<Rightarrow> nat list \<Rightarrow> state \<Rightarrow> unit result" where
  "executeAll E [] s = Returned () s"
| "executeAll E (e # es) s =
     (case execute E e s of
        Returned v s' \<Rightarrow> executeAll E es s'
      | Threw x s' \<Rightarrow> Threw x s'
      | NoReturn \<Rightarrow> NoReturn)"

text \<open>
  User code that keeps the tracking context: whenever one of the listed subscribers is
  executed and returns, the active effect is the one it was and no listed subscriber's
  \<^verbatim>\<open>allowRecurse\<close> flag has been reassigned.
\<close>

definition keepsContext :: "env \<Rightarrow> nat list \<Rightarrow> bool" where
  "keepsContext E es =
     (\<forall>e \<in> set es. \<forall>s v s'. execute E e s = Returned v s' \<longrightarrow>
        activeEffect s' = activeEffect s \<and>
        (\<forall>e' \<in> set es. allowRecurse (effects s' e') = allowRecurse (effects s e')))"

text \<open>
  Every effect counts its runs at address \<open>100 + e\<close>; effect 1 has a scheduler, which
  counts its calls at address 201.
\<close>

definition countingEnv :: env where
  "countingEnv =
     quietEnv\<lparr>fn := (\<lambda>e s. Returned VUndefined (bump (100 + e) s)),
              scheduler := (\<lambda>e. if e = 1 then Some (\<lambda>s. Returned VUndefined (bump 201 s)) else None)\<rparr>"

text \<open>
  Effects 0, 1 and 2 are the members of dependency set 5, and effect 0 has just entered
  \<^verbatim>\<open>run\<close>.
\<close>

definition sharedDepState :: state where
  "sharedDepState =
     runEnter 0
       (initialState
          \<lparr>effects := (\<lambda>e. \<lparr>active = True, deps = (if e \<le> 2 then [5] else []), parent = None, allowRecurse = False\<rparr>),
           depStore := (depStore initialState)(5 := \<lparr>subs = [0, 1, 2], wbits = 0, nbits = 0\<rparr>),
           nextDep := 6\<rparr>)"

text \<open>
  \<^verbatim>\<open>const arr = reactive([]); effect(() => { arr[0]; arr.length; count++ })\<close>: the raw
  array is at address 2, the effect is effect 0 and counts its runs at address 100.
  \<open>arrayWatched\<close> is the state after the effect's first run.
\<close>

definition arrayReaderEnv :: env where
  "arrayReaderEnv =
     quietEnv\<lparr>fn := (\<lambda>e s.
        andThen (track 2 GET (KIdx 0) s)
          (\<lambda>_ s1. andThen (track 2 GET KLength s1) (\<lambda>_ s2. Returned VUndefined (bump 100 s2))))\<rparr>"

definition emptyArrayState :: state where
  "emptyArrayState =
     initialState\<lparr>heap := (heap initialState)(2 := \<lparr>objType = TArray, props = Map.empty, len = 0\<rparr>)\<rparr>"

definition arrayWatched :: state where
  "arrayWatched = the (stateOf (run arrayReaderEnv 0 emptyArrayState))"

text \<open>
  \<^verbatim>\<open>const r = ref(1); const c = computed(() => { count++; return r.value })\<close>: the computed
  ref is ComputedRefImpl 0, its effect is effect 3 and the getter's counter is at address
  100. In \<open>ssrComputedState\<close> the computed ref was created with \<^verbatim>\<open>isSSR\<close> set.
\<close>

definition computedState :: state where
  "computedState = newComputedRefImpl 0 3 False (snd (ref (VNum 1) initialState))"

definition ssrComputedState :: state where
  "ssrComputedState = newComputedRefImpl 0 3 True (snd (ref (VNum 1) initialState))"

definition ssrReadOnce :: state where
  "ssrReadOnce = the (stateOf (ComputedRefImpl_get_value refReaderEnv 0 ssrComputedState))"

definition ssrReadTwice :: state where
  "ssrReadTwice = the (stateOf (ComputedRefImpl_get_value refReaderEnv 0 ssrReadOnce))"

text \<open>The state in which the getter of the computed ref returns, on the first read.\<close>

definition computedCleared :: state where
  "computedCleared =
     computedState\<lparr>computeds := (computeds computedState)(0 := (computeds computedState 0)\<lparr>c_dirty := False\<rparr>)\<rparr>"

definition getterReturned :: state where
  "getterReturned = the (stateOf (fn refReaderEnv 3 (runEnter 3 computedCleared)))"

definition computedReadOnce :: state where
  "computedReadOnce =
     (runExit 3 True getterReturned)
       \<lparr>computeds := (computeds (runExit 3 True getterReturned))
          (0 := (computeds (runExit 3 True getterReturned) 0)\<lparr>c_value := VNum 1\<rparr>)\<rparr>"

text \<open>
  \<^verbatim>\<open>effect(() => { 'a' in obj; Object.keys(obj) }, { scheduler: () => { calls++ } })\<close>:
  the object \<open>obj\<close> is the reactive proxy of the raw object at address 1, the effect is
  effect 1 and its scheduler counts at address 201. In \<open>objectWatched\<close> the raw object is
  \<^verbatim>\<open>{ a: 1 }\<close>; in \<open>refHolderWatched\<close> it is \<^verbatim>\<open>{ a: r }\<close> for \<^verbatim>\<open>r = ref(1)\<close>.
\<close>

definition keysReaderEnv :: env where
  "keysReaderEnv =
     countingEnv\<lparr>fn := (\<lambda>e s.
        andThen (track 1 HAS (KName ''a'') s)
          (\<lambda>_ s1. andThen (track 1 ITERATE KIterate s1) (\<lambda>_ s2. Returned VUndefined s2)))\<rparr>"

definition objectWatched :: state where
  "objectWatched = the (stateOf (run keysReaderEnv 1 plainObjectState))"

definition refHolderState :: state where
  "refHolderState =
     (snd (ref (VNum 1) initialState))
       \<lparr>heap := (heap initialState)(1 := \<lparr>objType = TObject, props = [KName ''a'' \<mapsto> VRefImpl 0 False], len = 0\<rparr>)\<rparr>"

definition refHolderWatched :: state where
  "refHolderWatched = the (stateOf (run keysReaderEnv 1 refHolderState))"

text \<open>The receiver of the writes below: the reactive proxy of the raw object at address 1.\<close>

definition objProxy :: jsval where
  "objProxy = VProxy Reactive (VObj 1)"

text \<open>\<open>objectWatched\<close> after \<^verbatim>\<open>Reflect.set\<close> has written \<^verbatim>\<open>a = 2\<close>, \<^verbatim>\<open>a = 1\<close> and \<^verbatim>\<open>b = 5\<close>.\<close>

definition writtenA2 :: state where
  "writtenA2 = the (stateOf (dataPropertySet 1 (KName ''a'') (VNum 2) objProxy objectWatched))"

definition writtenA1 :: state where
  "writtenA1 = the (stateOf (dataPropertySet 1 (KName ''a'') (VNum 1) objProxy objectWatched))"

definition writtenB5 :: state where
  "writtenB5 = the (stateOf (dataPropertySet 1 (KName ''b'') (VNum 5) objProxy objectWatched))"

text \<open>\<open>refHolderWatched\<close> after \<^verbatim>\<open>obj.a = 2\<close> through the deep set trap.\<close>

definition refHolderAssigned :: state where
  "refHolderAssigned =
     the (stateOf (createSetter False keysReaderEnv 1 (KName ''a'') (VNum 2) objProxy refHolderWatched))"

text \<open>
  The same watcher on the raw object \<^verbatim>\<open>{ a: x }\<close>, where \<open>x\<close> is the raw object at
  address 7, and the state after \<^verbatim>\<open>obj.a = readonly(x)\<close> through the deep set trap.
\<close>

definition objHolderState :: state where
  "objHolderState =
     initialState\<lparr>heap := (heap initialState)(1 := \<lparr>objType = TObject, props = [KName ''a'' \<mapsto> VObj 7], len = 0\<rparr>)\<rparr>"

definition objHolderWatched :: state where
  "objHolderWatched = the (stateOf (run keysReaderEnv 1 objHolderState))"

definition objHolderAssigned :: state where
  "objHolderAssigned =
     the (stateOf (createSetter False keysReaderEnv 1 (KName ''a'') (VProxy Readonly (VObj 7)) objProxy
                     objHolderWatched))"

text \<open>
  The words of the claim on the length-altering array methods. A computation keeps the
  tracking switch when, whenever it returns, \<^verbatim>\<open>shouldTrack\<close> and \<^verbatim>\<open>trackStack\<close> are what
  they were: it has paired every pause or enable with a reset, as \<open>run\<close> does around the
  function of a nested effect.
\<close>

definition keepsTracking :: "(state \<Rightarrow> 'a result) \<Rightarrow> bool" where
  "keepsTracking f =
     (\<forall>s v s'. f s = Returned v s' \<longrightarrow> shouldTrack s' = shouldTrack s \<and> trackStack s' = trackStack s)"

fun isRead :: "step \<Rightarrow> bool" where
  "isRead (Other f) = False"
| "isRead st = True"

definition othersKeepTracking :: "step list \<Rightarrow> bool" where
  "othersKeepTracking sts = (\<forall>f. Other f \<in> set sts \<longrightarrow> keepsTracking f)"

text \<open>All user code and built-ins of an environment keep the tracking switch.\<close>

definition envKeepsTracking :: "env \<Rightarrow> bool" where
  "envKeepsTracking E =
     ((\<forall>e. keepsTracking (fn E e)) \<and>
      (\<forall>e sch. scheduler E e = Some sch \<longrightarrow> keepsTracking sch) \<and>
      (\<forall>c v. keepsTracking (setter E c v)) \<and>
      (\<forall>r v. keepsTracking (otherSetValue E r v)) \<and>
      (\<forall>t k v r. keepsTracking (reflectSet E t k v r)))"

text \<open>
  \<^verbatim>\<open>arr.push(7)\<close> on the reactive proxy of the empty array at address 2, as the built-in
  method works through the proxy: it reads \<^verbatim>\<open>length\<close>, sets index 0, sets \<^verbatim>\<open>length\<close>.
  In \<open>pushingState\<close> effect 5 is running (it is the one that calls push), while effect 0
  of \<open>arrayWatched\<close> watches the array.
\<close>

definition arrProxy :: jsval where
  "arrProxy = VProxy Reactive (VObj 2)"

definition pushSteps :: "step list" where
  "pushSteps =
     [Track 2 GET KLength,
      Other (\<lambda>s. andThen (createSetter False arrayReaderEnv 2 (KIdx 0) (VNum 7) arrProxy s)
                    (\<lambda>b s'. Returned (VBool b) s')),
      Other (\<lambda>s. andThen (createSetter False arrayReaderEnv 2 KLength (VNum 1) arrProxy s)
                    (\<lambda>b s'. Returned (VBool b) s'))]"

definition pushResult :: "state \<Rightarrow> jsval" where
  "pushResult s = VNum (int (len (heap s 2)))"

definition pushingState :: state where
  "pushingState = runEnter 5 arrayWatched"

text \<open>
  \<open>pushingState\<close> after the instrumented push, and after the same steps made without
  pausing.
\<close>

definition pushed :: state where
  "pushed = the (stateOf (lengthAltering (arrayMethod pushSteps pushResult) pushingState))"

definition pushedUnpaused :: state where
  "pushedUnpaused = the (stateOf (arrayMethod pushSteps pushResult pushingState))"

text \<open>
  \<^verbatim>\<open>effect(() => { if (arr.length > 0) throw 'invalid'; count++ })\<close> on the same empty
  array: effect 0 throws once the array holds an element. \<open>validatedPushing\<close> is the state
  after its first run in which effect 5 is running, and \<open>validatedSteps\<close> is what
  \<^verbatim>\<open>arr.push(7)\<close> does through the proxy.
\<close>

definition validatingEnv :: env where
  "validatingEnv =
     quietEnv\<lparr>fn := (\<lambda>e s.
        andThen (track 2 GET KLength s)
          (\<lambda>_ s1. if 0 < len (heap s1 2) then Threw (VStr ''invalid'') s1
                    else Returned VUndefined (bump 100 s1)))\<rparr>"

definition validatedPushing :: state where
  "validatedPushing = runEnter 5 (the (stateOf (run validatingEnv 0 emptyArrayState)))"

definition validatedSteps :: "step list" where
  "validatedSteps =
     [Track 2 GET KLength,
      Other (\<lambda>s. andThen (createSetter False validatingEnv 2 (KIdx 0) (VNum 7) arrProxy s)
                    (\<lambda>b s'. Returned (VBool b) s')),
      Other (\<lambda>s. andThen (createSetter False validatingEnv 2 KLength (VNum 1) arrProxy s)
                    (\<lambda>b s'. Returned (VBool b) s'))]"

text \<open>
  The environment of \<open>sharedDepState\<close> in which the scheduler of effect 1 throws.
\<close>

definition failingSchedulerEnv :: env where
  "failingSchedulerEnv =
     countingEnv\<lparr>scheduler := (\<lambda>e. if e = 1 then Some (\<lambda>s. Threw (VStr ''boom'') s) else None)\<rparr>"

text \<open>
  The watcher of \<open>arrayWatched\<close>, effect 0, has entered \<^verbatim>\<open>run\<close> again: it is the active
  effect and a member of the cells of \<^verbatim>\<open>arr[0]\<close> and of \<^verbatim>\<open>arr.length\<close>.
\<close>

definition arrayRerunning :: state where
  "arrayRerunning = runEnter 0 arrayWatched"

section \<open>Properties\<close>

lemma isRef_createRef: "isRef (fst (createRef x sh s))"
  by (simp add: createRef_def newRefImpl_def)

text \<open>
  C10. For every value \<open>x\<close> that is already a ref, \<open>ref x\<close> and \<open>shallowRef x\<close> return \<open>x\<close>
  itself and allocate nothing (the state is unchanged); hence applying \<open>ref\<close> to the result
  of \<open>ref\<close> returns that result again, for every \<open>x\<close>.
\<close>

theorem createRef_returns_ref_itself:
  "(isRef x \<longrightarrow> ref x s = (x, s) \<and> shallowRef x s = (x, s)) \<and>
   ref (fst (ref x s)) (snd (ref x s)) = ref x s \<and>
   shallowRef (fst (shallowRef x s)) (snd (shallowRef x s)) = shallowRef x s"
  by (simp add: ref_def shallowRef_def createRef_def newRefImpl_def)

theorem createRef_returns_ref_itself_witness:
  "isRef (fst (ref (VNum 1) initialState)) \<and>
   fst (ref (VNum 1) initialState) = VRefImpl 0 False \<and>
   ref (VRefImpl 0 False) (snd (ref (VNum 1) initialState)) =
     (VRefImpl 0 False, snd (ref (VNum 1) initialState)) \<and>
   shallowRef (VRefImpl 0 False) (snd (ref (VNum 1) initialState)) =
     (VRefImpl 0 False, snd (ref (VNum 1) initialState))"
  using createRef_returns_ref_itself [of "VRefImpl 0 False" "snd (ref (VNum 1) initialState)"]
  by (simp add: ref_def createRef_def newRefImpl_def initialState_def)

lemmas model_defs =
  run_def onParentChain.simps runEnter_def runExit_def tryFinally_def andThen_def
  RefImpl_get_value_def trackRefValue_def createDep_def trackEffects_def Let_def maxMarkerBits_def
  shl1_def initDepMarkers_def setWasTracked_def finalizeDepMarkers_def newTracked_def wasTracked_def depAdd_def
  clearBits_def depDelete_def triggerRefValue_def triggerEffects_def cleanupEffect_def
  RefImpl_set_value_def hasChanged_def toReactive_def

lemmas config_defs =
  initialState_def quietEnv_def bump_def counterAt_def refReaderEnv_def ref_def createRef_def
  newRefImpl_def

lemma refWatched_run:
  "run refReaderEnv 0 (snd (ref (VNum 1) initialState)) = Returned (VNum 1) refWatched"
  unfolding refWatched_def by (simp add: model_defs config_defs)

lemma refWatched_facts:
  "ref_rawValue (refs refWatched 0) = VNum 1"
  "ref_dep (refs refWatched 0) = Some 0"
  "\<not> ref_isShallow (refs refWatched 0)"
  "subs (depStore refWatched 0) = [0]"
  "counterAt 100 refWatched = 1"
  unfolding refWatched_def by (simp_all add: model_defs config_defs)

lemma refWritten_facts:
  "triggerEffects refReaderEnv 0
     (refWatched\<lparr>refs := (refs refWatched)(0 := (refs refWatched 0)
        \<lparr>ref_rawValue := VNum 2, ref_value := toReactive (VNum 2)\<rparr>)\<rparr>) = Returned () refWritten"
  "ref_rawValue (refs refWritten 0) = VNum 2"
  "\<not> ref_isShallow (refs refWritten 0)"
  "counterAt 100 refWritten = 2"
  unfolding refWritten_def refWatched_def by (simp_all add: model_defs config_defs)

text \<open>
  C6. The assignment \<^verbatim>\<open>r.value = x\<close> on a RefImpl first takes the raw form of \<open>x\<close>
  (\<open>toRaw x\<close>, or \<open>x\<close> itself when the ref is shallow). When that equals the stored raw
  value under the same-value comparison, the call returns with the state unchanged,
  whatever the environment: nothing is stored and no subscriber is triggered. Otherwise the
  raw value and (for a deep ref) its reactive wrapping are stored and \<open>triggerEffects\<close> runs
  on the ref's dependency set, when the ref has one. NaN stored, NaN assigned: nothing happens.
\<close>

theorem RefImpl_set_value_skips_same_value:
  "(let raw = (if ref_isShallow (refs s r) then x else toRaw x);
        s' = s\<lparr>refs := (refs s)(r := (refs s r)
                 \<lparr>ref_rawValue := raw,
                  ref_value := (if ref_isShallow (refs s r) then raw else toReactive raw)\<rparr>)\<rparr>
    in (raw = ref_rawValue (refs s r) \<longrightarrow> RefImpl_set_value E r x s = Returned () s) \<and>
       (raw \<noteq> ref_rawValue (refs s r) \<longrightarrow>
          RefImpl_set_value E r x s =
            (case ref_dep (refs s r) of None \<Rightarrow> Returned () s' | Some d \<Rightarrow> triggerEffects E d s'))) \<and>
   (ref_rawValue (refs s r) = VNaN \<longrightarrow> RefImpl_set_value E r VNaN s = Returned () s)"
  by (simp add: RefImpl_set_value_def hasChanged_def triggerRefValue_def Let_def split: option.splits)

text \<open>
  With \<^verbatim>\<open>const r = ref(1); effect(() => { r.value; count++ })\<close>: assigning 1 again does
  nothing; assigning 2 re-runs the effect once (the counter goes from 1 to 2); assigning 2
  a second time does nothing.
\<close>

theorem RefImpl_set_value_skips_same_value_witness:
  "RefImpl_set_value refReaderEnv 0 (VNum 1) refWatched = Returned () refWatched \<and>
   RefImpl_set_value refReaderEnv 0 (VNum 2) refWatched = Returned () refWritten \<and>
   counterAt 100 refWatched = 1 \<and> counterAt 100 refWritten = 2 \<and>
   RefImpl_set_value refReaderEnv 0 (VNum 2) refWritten = Returned () refWritten"
proof -
  have a: "RefImpl_set_value refReaderEnv 0 (VNum 1) refWatched = Returned () refWatched"
    using RefImpl_set_value_skips_same_value [of refWatched 0 "VNum 1" refReaderEnv]
    by (simp add: refWatched_facts del: fun_upd_apply)
  have b: "RefImpl_set_value refReaderEnv 0 (VNum 2) refWatched = Returned () refWritten"
    using RefImpl_set_value_skips_same_value [of refWatched 0 "VNum 2" refReaderEnv]
    by (simp add: refWatched_facts refWritten_facts del: fun_upd_apply)
  have c: "RefImpl_set_value refReaderEnv 0 (VNum 2) refWritten = Returned () refWritten"
    using RefImpl_set_value_skips_same_value [of refWritten 0 "VNum 2" refReaderEnv]
    by (simp add: refWritten_facts del: fun_upd_apply)
  show ?thesis using a b c by (simp add: refWatched_facts refWritten_facts)
qed

text \<open>
  C7 (as amended). The set and deleteProperty traps of \<open>readonlyHandlers\<close> return
  \<open>True\<close>, never \<open>False\<close>: the trap reports success, so the assignment does not throw.
  They take no environment, so they call no user code and no trigger, and they leave every
  part of the state as it was (the raw object, the dependency graph) except that a
  development build appends one warning to the console.
\<close>

theorem readonlyHandlers_leave_target:
  "(\<exists>s'. readonlyHandlers_set dev target k s = Returned True s' \<and>
         s'\<lparr>console := console s\<rparr> = s \<and> heap s' = heap s \<and>
         console s' = (if dev then console s @ [SetFailedReadonly k target] else console s)) \<and>
   (\<exists>s'. readonlyHandlers_deleteProperty dev target k s = Returned True s' \<and>
         s'\<lparr>console := console s\<rparr> = s \<and> heap s' = heap s \<and>
         console s' = (if dev then console s @ [DeleteFailedReadonly k target] else console s))"
  by (simp add: readonlyHandlers_set_def readonlyHandlers_deleteProperty_def)

theorem readonlyHandlers_leave_target_witness:
  "(\<exists>s'. readonlyHandlers_set False 1 (KName ''a'') plainObjectState = Returned True s' \<and>
         getProp (heap s' 1) (KName ''a'') = VNum 1 \<and> console s' = []) \<and>
   (\<exists>s'. readonlyHandlers_deleteProperty True 1 (KName ''a'') plainObjectState = Returned True s' \<and>
         getProp (heap s' 1) (KName ''a'') = VNum 1 \<and>
         console s' = [DeleteFailedReadonly (KName ''a'') 1])"
proof -
  have h: "getProp (heap plainObjectState 1) (KName ''a'') = VNum 1" "console plainObjectState = []"
    by (simp_all add: plainObjectState_def initialState_def getProp_def isArrayObj_def)
  show ?thesis
    using readonlyHandlers_leave_target [of False 1 "KName ''a''" plainObjectState]
          readonlyHandlers_leave_target [of True 1 "KName ''a''" plainObjectState] h
    by auto
qed

text \<open>
  The claim as first stated, that the traps return a false result, fails: on the read-only
  proxy of \<^verbatim>\<open>{ a: 1 }\<close> both traps return \<open>True\<close>.
\<close>

theorem readonlyHandlers_return_true_counterexample:
  "readonlyHandlers_set False 1 (KName ''a'') plainObjectState = Returned True plainObjectState \<and>
   readonlyHandlers_deleteProperty False 1 (KName ''a'') plainObjectState = Returned True plainObjectState \<and>
   readonlyHandlers_set False 1 (KName ''a'') plainObjectState \<noteq> Returned False plainObjectState"
  by (simp add: readonlyHandlers_set_def readonlyHandlers_deleteProperty_def)

lemma fold_depDelete_effects [simp]:
  "effects (fold (\<lambda>d st. depDelete d e st) ds s) = effects s"
  by (induction ds arbitrary: s) (simp_all add: depDelete_def)




lemma cleanupEffect_active [simp]:
  "active (effects (cleanupEffect e s) e') = active (effects s e')"
  by (simp add: cleanupEffect_def Let_def)












lemma fold_depDelete_frame [simp]:
  "activeEffect (fold (\<lambda>d st. depDelete d e st) ds s) = activeEffect s"
  "shouldTrack (fold (\<lambda>d st. depDelete d e st) ds s) = shouldTrack s"
  "trackStack (fold (\<lambda>d st. depDelete d e st) ds s) = trackStack s"
  by (induction ds arbitrary: s) (simp_all add: depDelete_def)

lemma cleanupEffect_frame [simp]:
  "activeEffect (cleanupEffect e s) = activeEffect s"
  "shouldTrack (cleanupEffect e s) = shouldTrack s"
  "trackStack (cleanupEffect e s) = trackStack s"
  "parent (effects (cleanupEffect e s) e') = parent (effects s e')"
  "allowRecurse (effects (cleanupEffect e s) e') = allowRecurse (effects s e')"
  by (simp_all add: cleanupEffect_def Let_def)

lemma fold_setWasTracked_frame [simp]:
  "activeEffect (fold setWasTracked ds s) = activeEffect s"
  "shouldTrack (fold setWasTracked ds s) = shouldTrack s"
  "trackStack (fold setWasTracked ds s) = trackStack s"
  "effects (fold setWasTracked ds s) = effects s"
  by (induction ds arbitrary: s) (simp_all add: setWasTracked_def)

lemma initDepMarkers_frame [simp]:
  "activeEffect (initDepMarkers e s) = activeEffect s"
  "shouldTrack (initDepMarkers e s) = shouldTrack s"
  "trackStack (initDepMarkers e s) = trackStack s"
  "effects (initDepMarkers e s) = effects s"
  by (simp_all add: initDepMarkers_def)

lemma finalizeLoop_frame:
  "finalizeLoop e ds kept s = (kept', s') \<Longrightarrow>
     activeEffect s' = activeEffect s \<and> shouldTrack s' = shouldTrack s \<and>
     trackStack s' = trackStack s \<and> effects s' = effects s \<and>
     effectTrackDepth s' = effectTrackDepth s"
  by (induction e ds kept s rule: finalizeLoop.induct)
     (auto simp: clearBits_def depDelete_def split: if_splits)

lemma finalizeDepMarkers_frame [simp]:
  "activeEffect (finalizeDepMarkers e s) = activeEffect s"
  "shouldTrack (finalizeDepMarkers e s) = shouldTrack s"
  "trackStack (finalizeDepMarkers e s) = trackStack s"
  "effectTrackDepth (finalizeDepMarkers e s) = effectTrackDepth s"
  "parent (effects (finalizeDepMarkers e s) e') = parent (effects s e')"
  "allowRecurse (effects (finalizeDepMarkers e s) e') = allowRecurse (effects s e')"
  "active (effects (finalizeDepMarkers e s) e') = active (effects s e')"
proof -
  obtain kept s' where eq: "finalizeLoop e (deps (effects s e)) [] s = (kept, s')"
    by (cases "finalizeLoop e (deps (effects s e)) [] s") blast
  have fin: "finalizeDepMarkers e s = s'\<lparr>effects := (effects s')(e := (effects s' e)\<lparr>deps := kept\<rparr>)\<rparr>"
    by (simp add: finalizeDepMarkers_def eq)
  note fr = finalizeLoop_frame [OF eq]
  show "activeEffect (finalizeDepMarkers e s) = activeEffect s"
    "shouldTrack (finalizeDepMarkers e s) = shouldTrack s"
    "trackStack (finalizeDepMarkers e s) = trackStack s"
    "effectTrackDepth (finalizeDepMarkers e s) = effectTrackDepth s"
    "parent (effects (finalizeDepMarkers e s) e') = parent (effects s e')"
    "allowRecurse (effects (finalizeDepMarkers e s) e') = allowRecurse (effects s e')"
    "active (effects (finalizeDepMarkers e s) e') = active (effects s e')"
    by (simp_all add: fin fr)
qed

lemma runEnter_frame [simp]:
  "activeEffect (runEnter e s) = Some e"
  "shouldTrack (runEnter e s) = True"
  "trackStack (runEnter e s) = trackStack s"
  "parent (effects (runEnter e s) e) = activeEffect s"
  "allowRecurse (effects (runEnter e s) e') = allowRecurse (effects s e')"
  by (simp_all add: runEnter_def Let_def)

lemma runExit_frame [simp]:
  "activeEffect (runExit e l s) = parent (effects s e)"
  "shouldTrack (runExit e l s) = l"
  "trackStack (runExit e l s) = trackStack s"
  "allowRecurse (effects (runExit e l s) e') = allowRecurse (effects s e')"
  by (simp_all add: runExit_def Let_def)

text \<open>
  C4 (as amended). For an effect that is active when \<open>run\<close> is called and is not already
  running up the parent chain, an exception thrown by the wrapped function propagates
  unmodified, and afterwards \<open>shouldTrack\<close> has the value it had before the run (whatever the
  function did to it) and so has \<open>activeEffect\<close> (the function having left \<^verbatim>\<open>this.parent\<close>
  as \<open>run\<close> set it); the same holds when the function returns. \<open>run\<close> on an effect that is
  already running returns \<^verbatim>\<open>undefined\<close> and changes nothing. \<open>run\<close> on a stopped effect is
  the call of the function and nothing else: it restores nothing.
\<close>

theorem run_restores_tracking_context:
  "(active (effects s e) \<and> onParentChain (effects s) e (activeEffect s) = Some False \<and>
    fn E e (runEnter e s) = Threw x s1 \<and>
    parent (effects s1 e) = parent (effects (runEnter e s) e) \<longrightarrow>
      (\<exists>s'. run E e s = Threw x s' \<and> activeEffect s' = activeEffect s \<and>
            shouldTrack s' = shouldTrack s)) \<and>
   (active (effects s e) \<and> onParentChain (effects s) e (activeEffect s) = Some False \<and>
    fn E e (runEnter e s) = Returned v s1 \<and>
    parent (effects s1 e) = parent (effects (runEnter e s) e) \<longrightarrow>
      (\<exists>s'. run E e s = Returned v s' \<and> activeEffect s' = activeEffect s \<and>
            shouldTrack s' = shouldTrack s)) \<and>
   (active (effects s e) \<and> onParentChain (effects s) e (activeEffect s) = Some True \<longrightarrow>
      run E e s = Returned VUndefined s) \<and>
   (\<not> active (effects s e) \<longrightarrow> run E e s = fn E e s)"
  by (simp add: run_def tryFinally_def)

lemma stoppedState_facts:
  "\<not> active (effects stoppedState 0)" "shouldTrack stoppedState" "activeEffect stoppedState = None"
  unfolding stoppedState_def
  by (simp_all add: stop_def andThen_def quietEnv_def initialState_def cleanupEffect_def)

text \<open>
  Effect 0 runs inside effect 1 and its function pauses tracking and throws: the exception
  comes out of \<open>run\<close> as thrown, the active effect is effect 1 again and tracking is enabled
  as it was.
\<close>

theorem run_restores_tracking_context_witness:
  "activeEffect (runEnter 1 initialState) = Some 1 \<and> shouldTrack (runEnter 1 initialState) \<and>
   (\<exists>s1. fn throwingEnv 0 (runEnter 0 (runEnter 1 initialState)) = Threw (VStr ''boom'') s1 \<and>
         \<not> shouldTrack s1 \<and> activeEffect s1 = Some 0) \<and>
   (\<exists>s'. run throwingEnv 0 (runEnter 1 initialState) = Threw (VStr ''boom'') s' \<and>
         activeEffect s' = Some 1 \<and> shouldTrack s')"
proof -
  let ?s = "runEnter 1 initialState"
  let ?s1 = "pauseTracking (runEnter 0 ?s)"
  have f: "fn throwingEnv 0 (runEnter 0 ?s) = Threw (VStr ''boom'') ?s1"
    by (simp add: throwingEnv_def)
  have p: "parent (effects ?s1 0) = parent (effects (runEnter 0 ?s) 0)"
    by (simp add: pauseTracking_def)
  have a: "active (effects ?s 0)"
    by (simp add: runEnter_def Let_def initialState_def maxMarkerBits_def initDepMarkers_def)
  have c: "onParentChain (effects ?s) 0 (activeEffect ?s) = Some False"
    by (simp add: onParentChain.simps runEnter_def Let_def initialState_def maxMarkerBits_def
        initDepMarkers_def)
  have r: "\<exists>s'. run throwingEnv 0 ?s = Threw (VStr ''boom'') s' \<and>
         activeEffect s' = activeEffect ?s \<and> shouldTrack s' = shouldTrack ?s"
    by (rule run_restores_tracking_context [of ?s 0 throwingEnv "VStr ''boom''" ?s1,
          THEN conjunct1, THEN mp]) (simp only: a c f p simp_thms)
  have q: "\<not> shouldTrack ?s1" "activeEffect ?s1 = Some 0"
    by (simp_all add: pauseTracking_def)
  show ?thesis using r f q by simp
qed

text \<open>
  The claim as first stated, for every effect, fails on a stopped effect: \<open>run\<close> is then
  just the function, which here pauses tracking and throws, and \<open>shouldTrack\<close>, true before
  the run, is false after it.
\<close>

theorem run_stopped_effect_counterexample:
  "\<not> active (effects stoppedState 0) \<and> shouldTrack stoppedState \<and>
   run throwingEnv 0 stoppedState = Threw (VStr ''boom'') (pauseTracking stoppedState) \<and>
   \<not> shouldTrack (pauseTracking stoppedState)"
  by (simp add: stoppedState_facts run_def throwingEnv_def) (simp add: pauseTracking_def)

lemma bump_frame [simp]:
  "activeEffect (bump a s) = activeEffect s"
  "shouldTrack (bump a s) = shouldTrack s"
  "trackStack (bump a s) = trackStack s"
  "effects (bump a s) = effects s"
  "depStore (bump a s) = depStore s"
  by (simp_all add: bump_def)

lemma keepsContext_Cons:
  assumes "keepsContext E (e # es)"
  shows "keepsContext E es"
  using assms unfolding keepsContext_def by auto

lemma skipped_cong:
  assumes "activeEffect s' = activeEffect s"
    and "\<forall>e \<in> set es. allowRecurse (effects s' e) = allowRecurse (effects s e)"
  shows "filter (\<lambda>e. \<not> skipped s' e) es = filter (\<lambda>e. \<not> skipped s e) es"
  using assms by (intro filter_cong) (auto simp: skipped_def)

lemma triggerEffectsOver_executeAll:
  assumes "keepsContext E es"
  shows "triggerEffectsOver E es s = executeAll E (filter (\<lambda>e. \<not> skipped s e) es) s"
  using assms
proof (induction es arbitrary: s)
  case Nil
  then show ?case by simp
next
  case (Cons e es)
  have tl: "keepsContext E es" using Cons.prems by (rule keepsContext_Cons)
  show ?case
  proof (cases "skipped s e")
    case True
    then show ?thesis using Cons.IH [OF tl, of s] by (simp add: skipped_def)
  next
    case False
    show ?thesis
    proof (cases "execute E e s")
      case (Returned v s')
      have "activeEffect s' = activeEffect s \<and>
            (\<forall>e' \<in> set es. allowRecurse (effects s' e') = allowRecurse (effects s e'))"
        using Cons.prems Returned unfolding keepsContext_def by auto
      then have "filter (\<lambda>e. \<not> skipped s' e) es = filter (\<lambda>e. \<not> skipped s e) es"
        by (intro skipped_cong) auto
      then show ?thesis
        using False Returned Cons.IH [OF tl, of s'] by (auto simp: skipped_def execute_def)
    next
      case (Threw x s')
      then show ?thesis using False by (auto simp: skipped_def execute_def)
    next
      case NoReturn
      then show ?thesis using False by (auto simp: skipped_def execute_def)
    qed
  qed
qed

text \<open>
  C2 (as amended). \<open>triggerEffects\<close> walks the members of the set as they were when the
  call began, in the order of the set. A member that, when its turn comes, is the active
  effect with \<^verbatim>\<open>allowRecurse\<close> false is passed over: neither its scheduler nor its \<open>run\<close>
  is called. Every other member whose turn comes is executed, through its scheduler if it
  has one and through \<open>run\<close> otherwise; when the execution returns the walk goes on, and
  when it throws (or does not return) the call ends the same way and the members after it
  are not executed. With user code that keeps the tracking context, the whole call is the
  execution, in order and up to the first that throws, of exactly the members that are not
  skipped in the state the call began in.
\<close>

theorem triggerEffects_skips_active:
  "triggerEffects E d s = triggerEffectsOver E (subs (depStore s d)) s \<and>
   (skipped s e \<longrightarrow> triggerEffectsOver E (e # es) s = triggerEffectsOver E es s) \<and>
   (\<not> skipped s e \<longrightarrow>
      triggerEffectsOver E (e # es) s =
        (case (case scheduler E e of Some sch \<Rightarrow> sch s | None \<Rightarrow> run E e s) of
           Returned v s' \<Rightarrow> triggerEffectsOver E es s'
         | Threw x s' \<Rightarrow> Threw x s'
         | NoReturn \<Rightarrow> NoReturn)) \<and>
   (keepsContext E (subs (depStore s d)) \<longrightarrow>
      triggerEffects E d s =
        executeAll E (filter (\<lambda>e. \<not> skipped s e) (subs (depStore s d))) s)"
  by (simp add: triggerEffects_def triggerEffectsOver_executeAll skipped_def)
lemma run_keeps_context:
  assumes fnk: "\<And>s v s'. fn E e s = Returned v s' \<Longrightarrow>
            activeEffect s' = activeEffect s \<and> parent (effects s' e) = parent (effects s e) \<and>
            (\<forall>e'. allowRecurse (effects s' e') = allowRecurse (effects s e'))"
    and r: "run E e s = Returned v s'"
  shows "activeEffect s' = activeEffect s \<and>
         (\<forall>e'. allowRecurse (effects s' e') = allowRecurse (effects s e'))"
proof (cases "active (effects s e)")
  case False
  then show ?thesis using r fnk [of s v s'] by (simp add: run_def)
next
  case True
  show ?thesis
  proof (cases "onParentChain (effects s) e (activeEffect s)")
    case None
    then show ?thesis using r True by (simp add: run_def)
  next
    case (Some b)
    show ?thesis
    proof (cases b)
      case True
      then show ?thesis using r Some \<open>active (effects s e)\<close> by (simp add: run_def)
    next
      case False
      then have t: "tryFinally (fn E e (runEnter e s)) (runExit e (shouldTrack s)) = Returned v s'"
        using r Some \<open>active (effects s e)\<close> by (simp add: run_def)
      then obtain s1 where f: "fn E e (runEnter e s) = Returned v s1"
        and s': "s' = runExit e (shouldTrack s) s1"
        by (cases "fn E e (runEnter e s)") (auto simp: tryFinally_def)
      show ?thesis using fnk [OF f] by (simp add: s')
    qed
  qed
qed

lemma countingEnv_keepsContext: "keepsContext countingEnv es"
proof -
  have fnk: "\<And>e s v s'. fn countingEnv e s = Returned v s' \<Longrightarrow>
            activeEffect s' = activeEffect s \<and> parent (effects s' e) = parent (effects s e) \<and>
            (\<forall>e'. allowRecurse (effects s' e') = allowRecurse (effects s e'))"
    by (auto simp: countingEnv_def)
  have "activeEffect s' = activeEffect s \<and>
        (\<forall>e'. allowRecurse (effects s' e') = allowRecurse (effects s e'))"
    if "execute countingEnv e s = Returned v s'" for e s v s'
  proof (cases "e = 1")
    case True
    then show ?thesis using that by (auto simp: execute_def countingEnv_def)
  next
    case False
    then have "run countingEnv e s = Returned v s'"
      using that by (simp add: execute_def countingEnv_def)
    then show ?thesis using run_keeps_context [of countingEnv e] fnk by blast
  qed
  then show ?thesis unfolding keepsContext_def by blast
qed

lemma sharedDepState_facts:
  "activeEffect sharedDepState = Some 0"
  "\<not> allowRecurse (effects sharedDepState e)"
  "subs (depStore sharedDepState 5) = [0, 1, 2]"
  "counterAt a sharedDepState = 0"
  unfolding sharedDepState_def
  by (simp_all add: model_defs config_defs)

lemma sharedDepState_executeAll:
  "\<exists>s'. executeAll countingEnv [1, 2] sharedDepState = Returned () s' \<and>
        counterAt 100 s' = 0 \<and> counterAt 101 s' = 0 \<and> counterAt 201 s' = 1 \<and>
        counterAt 102 s' = 1 \<and> activeEffect s' = Some 0"
  unfolding sharedDepState_def
  by (simp add: execute_def countingEnv_def model_defs config_defs)

text \<open>
  While effect 0 runs, \<open>triggerEffects\<close> on the set \<open>{0, 1, 2}\<close> passes over effect 0 (its
  counter stays 0), calls the scheduler of effect 1 once and not its \<open>run\<close>, and calls
  \<open>run\<close> of effect 2, which has no scheduler, once.
\<close>

theorem triggerEffects_skips_active_witness:
  "skipped sharedDepState 0 \<and> \<not> skipped sharedDepState 1 \<and> \<not> skipped sharedDepState 2 \<and>
   keepsContext countingEnv (subs (depStore sharedDepState 5)) \<and>
   (\<exists>s'. triggerEffects countingEnv 5 sharedDepState = Returned () s' \<and>
         counterAt 100 s' = 0 \<and> counterAt 101 s' = 0 \<and> counterAt 201 s' = 1 \<and>
         counterAt 102 s' = 1 \<and> activeEffect s' = Some 0)"
proof -
  have sk: "skipped sharedDepState 0" "\<not> skipped sharedDepState 1" "\<not> skipped sharedDepState 2"
    by (simp_all add: skipped_def sharedDepState_facts)
  have k: "keepsContext countingEnv (subs (depStore sharedDepState 5))"
    by (rule countingEnv_keepsContext)
  have "triggerEffects countingEnv 5 sharedDepState =
          executeAll countingEnv
            (filter (\<lambda>e. \<not> skipped sharedDepState e) (subs (depStore sharedDepState 5)))
            sharedDepState"
    by (rule triggerEffects_skips_active [of countingEnv 5 sharedDepState 0 "[]",
          THEN conjunct2, THEN conjunct2, THEN conjunct2, THEN mp, OF k])
  also have "\<dots> = executeAll countingEnv [1, 2] sharedDepState"
    by (simp add: sharedDepState_facts skipped_def)
  finally have "triggerEffects countingEnv 5 sharedDepState =
      executeAll countingEnv [1, 2] sharedDepState" .
  then show ?thesis using sk k sharedDepState_executeAll by simp
qed

lemma failingScheduler_facts:
  "scheduler failingSchedulerEnv 2 = None"
  "triggerEffects failingSchedulerEnv 5 sharedDepState = Threw (VStr ''boom'') sharedDepState"
  "\<exists>s'. run failingSchedulerEnv 2 sharedDepState = Returned VUndefined s' \<and> counterAt 102 s' = 1"
  unfolding sharedDepState_def
  by (simp_all add: failingSchedulerEnv_def countingEnv_def model_defs config_defs)

text \<open>
  The claim as first stated, that every member other than the skipped one is executed,
  fails when a member throws. While effect 0 runs, \<open>triggerEffects\<close> walks the set
  \<open>{0, 1, 2}\<close>; the scheduler of effect 1 throws, the call throws the same exception, and
  effect 2, which is not skipped and has no scheduler, is not run: its counter, which its
  \<open>run\<close> would have raised to 1, is still 0.
\<close>

theorem triggerEffects_throwing_subscriber_counterexample:
  "subs (depStore sharedDepState 5) = [0, 1, 2] \<and>
   \<not> skipped sharedDepState 2 \<and> scheduler failingSchedulerEnv 2 = None \<and>
   counterAt 102 sharedDepState = 0 \<and>
   triggerEffects failingSchedulerEnv 5 sharedDepState = Threw (VStr ''boom'') sharedDepState \<and>
   (\<exists>s'. run failingSchedulerEnv 2 sharedDepState = Returned VUndefined s' \<and> counterAt 102 s' = 1)"
  using failingScheduler_facts sharedDepState_facts by (simp add: skipped_def)

lemma set_setOf [simp]: "set (setOf xs) = set xs"
  by (induction xs) auto

lemma distinct_setOf [simp]: "distinct (setOf xs)"
  by (induction xs) auto

lemma count_filter_distinct:
  assumes "distinct xs"
  shows "count_list (filter P xs) x = (if x \<in> set xs \<and> P x then 1 else 0)"
  using assms by (induction xs) auto

lemma count_setOf: "count_list (setOf xs) x = (if x \<in> set xs then 1 else 0)"
  using count_filter_distinct [of "setOf xs" "\<lambda>_. True" x] by simp

lemma createDep_frame [simp]:
  "activeEffect (snd (createDep es s)) = activeEffect s"
  "shouldTrack (snd (createDep es s)) = shouldTrack s"
  "trackStack (snd (createDep es s)) = trackStack s"
  "effects (snd (createDep es s)) = effects s"
  "subs (depStore (snd (createDep es s)) (fst (createDep es s))) = setOf es"
  by (simp_all add: createDep_def)

lemma skipped_createDep [simp]: "skipped (snd (createDep es s)) e = skipped s e"
  by (simp add: skipped_def)

lemma trigger_many:
  assumes "targetMap s target = Some depsMap"
    and "affectedDeps E s target ty k newValue depsMap = Inr ds"
    and "length ds \<noteq> 1"
  shows "trigger E target ty k newValue s =
           triggerEffectsOver E (setOf (effectsOf s ds)) (snd (createDep (effectsOf s ds) s))"
  using assms
  by (simp add: trigger_def triggerEffects_def split: prod.splits)
     (metis createDep_frame(5) fst_conv snd_conv)

text \<open>
  C5 (as amended). When a \<open>trigger\<close> call collects a number of dependency cells other
  than one, the members of all the cells are put into one fresh set before anything is
  executed: every subscriber of an affected cell is in it exactly once, however many of the
  cells hold it, and the call is \<open>triggerEffects\<close> over that set. So no subscriber is
  executed once per cell: with user code that keeps the tracking context, the call
  executes, up to the first that throws, each subscriber of an affected cell that is not
  skipped (it is not the active effect, or it allows recursion) exactly once, and executes
  nothing else. A skipped subscriber is not executed at all.
\<close>

theorem trigger_deduplicates:
  "targetMap s target = Some depsMap \<and>
   affectedDeps E s target ty k newValue depsMap = Inr ds \<and> length ds \<noteq> 1 \<longrightarrow>
     (let all = setOf (effectsOf s ds); s1 = snd (createDep (effectsOf s ds) s)
      in trigger E target ty k newValue s = triggerEffectsOver E all s1 \<and>
         distinct all \<and> set all = set (effectsOf s ds) \<and>
         count_list all e = (if e \<in> set (effectsOf s ds) then 1 else 0) \<and>
         (keepsContext E all \<longrightarrow>
            trigger E target ty k newValue s = executeAll E (filter (\<lambda>e. \<not> skipped s e) all) s1 \<and>
            count_list (filter (\<lambda>e. \<not> skipped s e) all) e =
              (if e \<in> set (effectsOf s ds) \<and> \<not> skipped s e then 1 else 0)))"
  by (simp add: Let_def trigger_many count_setOf triggerEffectsOver_executeAll
      count_filter_distinct)
lemma trackEffects_frame:
  assumes "trackEffects d s = Returned u s'"
  shows "activeEffect s' = activeEffect s \<and> shouldTrack s' = shouldTrack s \<and>
         trackStack s' = trackStack s \<and>
         (\<forall>e. parent (effects s' e) = parent (effects s e) \<and>
              allowRecurse (effects s' e) = allowRecurse (effects s e) \<and>
              active (effects s' e) = active (effects s e))"
  using assms
  by (auto simp: trackEffects_def Let_def depAdd_def split: if_splits option.splits)

lemma track_frame:
  assumes "track target ty k s = Returned u s'"
  shows "activeEffect s' = activeEffect s \<and> shouldTrack s' = shouldTrack s \<and>
         trackStack s' = trackStack s \<and>
         (\<forall>e. parent (effects s' e) = parent (effects s e) \<and>
              allowRecurse (effects s' e) = allowRecurse (effects s e) \<and>
              active (effects s' e) = active (effects s e))"
proof (cases "shouldTrack s \<and> activeEffect s \<noteq> None")
  case False
  then show ?thesis using assms by (auto simp: track_def)
next
  case True
  define s1 where "s1 = (case targetMap s target of
                     None \<Rightarrow> s\<lparr>targetMap := (targetMap s)(target := Some [])\<rparr>
                   | Some m \<Rightarrow> s)"
  define depsMap where "depsMap = (case targetMap s1 target of None \<Rightarrow> [] | Some m \<Rightarrow> m)"
  have fr1: "activeEffect s1 = activeEffect s" "shouldTrack s1 = shouldTrack s"
    "trackStack s1 = trackStack s" "effects s1 = effects s"
    by (simp_all add: s1_def split: option.splits)
  show ?thesis
  proof (cases "map_of depsMap k")
    case (Some d)
    then have "trackEffects d s1 = Returned u s'"
      using assms True by (simp add: track_def Let_def s1_def depsMap_def)
    from trackEffects_frame [OF this] show ?thesis by (simp add: fr1)
  next
    case None
    then have "trackEffects (fst (createDep [] s1))
                 ((snd (createDep [] s1))\<lparr>targetMap := (targetMap (snd (createDep [] s1)))
                    (target := Some (depsMap @ [(k, fst (createDep [] s1))]))\<rparr>) = Returned u s'"
      using assms True by (simp add: track_def Let_def s1_def depsMap_def split: prod.splits)
    from trackEffects_frame [OF this] show ?thesis by (simp add: fr1)
  qed
qed

lemma arrayReaderEnv_keepsContext: "keepsContext arrayReaderEnv es"
proof -
  have fnk: "activeEffect s' = activeEffect s \<and> parent (effects s' e) = parent (effects s e) \<and>
            (\<forall>e'. allowRecurse (effects s' e') = allowRecurse (effects s e'))"
    if f: "fn arrayReaderEnv e s = Returned v s'" for e s v s'
  proof -
    from f obtain s1 s2 where
      t1: "track 2 GET (KIdx 0) s = Returned () s1" and
      t2: "track 2 GET KLength s1 = Returned () s2" and s': "s' = bump 100 s2"
      by (auto simp: arrayReaderEnv_def andThen_def split: result.splits)
    show ?thesis using track_frame [OF t1] track_frame [OF t2] by (simp add: s')
  qed
  have "activeEffect s' = activeEffect s \<and>
        (\<forall>e'. allowRecurse (effects s' e') = allowRecurse (effects s e'))"
    if "execute arrayReaderEnv e s = Returned v s'" for e s v s'
  proof -
    have "run arrayReaderEnv e s = Returned v s'"
      using that by (simp add: execute_def arrayReaderEnv_def quietEnv_def)
    then show ?thesis using run_keeps_context [of arrayReaderEnv e] fnk by blast
  qed
  then show ?thesis unfolding keepsContext_def by blast
qed

lemmas track_defs = track_def affectedDeps_def effectsOf_def isArrayObj_def isMapObj_def
  arrayReaderEnv_def emptyArrayState_def execute_def

lemma arrayWatched_facts:
  "targetMap arrayWatched 2 = Some [(KIdx 0, 0), (KLength, 1)]"
  "subs (depStore arrayWatched 0) = [0]"
  "subs (depStore arrayWatched 1) = [0]"
  "activeEffect arrayWatched = None"
  "counterAt 100 arrayWatched = 1"
  unfolding arrayWatched_def
  by (simp_all add: track_defs model_defs config_defs)

lemma arrayWatched_affected:
  "affectedDeps arrayReaderEnv arrayWatched 2 ADD (Some (KIdx 0)) (VNum 7) [(KIdx 0, 0), (KLength, 1)]
     = Inr [Some 0, Some 1]"
  "effectsOf arrayWatched [Some 0, Some 1] = [0, 0]"
  unfolding arrayWatched_def
  by (simp_all add: track_defs model_defs config_defs)

lemma arrayWatched_executeAll:
  "\<exists>s'. executeAll arrayReaderEnv [0] (snd (createDep [0, 0] arrayWatched)) = Returned () s' \<and>
        counterAt 100 s' = 2"
  unfolding arrayWatched_def
  by (simp add: track_defs model_defs config_defs)

text \<open>
  The effect reads \<^verbatim>\<open>arr[0]\<close> and \<^verbatim>\<open>arr.length\<close>, so it is a member of both cells. An
  \<open>ADD\<close> of index 0 affects both cells, and the effect runs once: its counter goes from 1
  to 2.
\<close>

theorem trigger_deduplicates_witness:
  "subs (depStore arrayWatched 0) = [0] \<and> subs (depStore arrayWatched 1) = [0] \<and>
   affectedDeps arrayReaderEnv arrayWatched 2 ADD (Some (KIdx 0)) (VNum 7) [(KIdx 0, 0), (KLength, 1)]
     = Inr [Some 0, Some 1] \<and>
   keepsContext arrayReaderEnv (setOf (effectsOf arrayWatched [Some 0, Some 1])) \<and>
   counterAt 100 arrayWatched = 1 \<and>
   (\<exists>s'. trigger arrayReaderEnv 2 ADD (Some (KIdx 0)) (VNum 7) arrayWatched = Returned () s' \<and>
         counterAt 100 s' = 2)"
proof -
  have k: "keepsContext arrayReaderEnv (setOf (effectsOf arrayWatched [Some 0, Some 1]))"
    by (rule arrayReaderEnv_keepsContext)
  have pre: "targetMap arrayWatched 2 = Some [(KIdx 0, 0), (KLength, 1)] \<and>
     affectedDeps arrayReaderEnv arrayWatched 2 ADD (Some (KIdx 0)) (VNum 7) [(KIdx 0, 0), (KLength, 1)]
       = Inr [Some 0, Some 1] \<and> length [Some (0::nat), Some 1] \<noteq> 1"
    by (intro conjI) (rule arrayWatched_facts(1), rule arrayWatched_affected(1), simp)
  note T = trigger_deduplicates [of arrayWatched 2 "[(KIdx 0, 0), (KLength, 1)]" arrayReaderEnv ADD
      "Some (KIdx 0)" "VNum 7" "[Some 0, Some 1]" 0, THEN mp, OF pre, unfolded Let_def]
  have "trigger arrayReaderEnv 2 ADD (Some (KIdx 0)) (VNum 7) arrayWatched =
          executeAll arrayReaderEnv
            (filter (\<lambda>e. \<not> skipped arrayWatched e) (setOf (effectsOf arrayWatched [Some 0, Some 1])))
            (snd (createDep (effectsOf arrayWatched [Some 0, Some 1]) arrayWatched))"
    using T k by blast
  also have "\<dots> = executeAll arrayReaderEnv [0] (snd (createDep [0, 0] arrayWatched))"
    by (simp only: arrayWatched_affected(2)) (simp add: skipped_def arrayWatched_facts(4))
  finally have t: "trigger arrayReaderEnv 2 ADD (Some (KIdx 0)) (VNum 7) arrayWatched =
      executeAll arrayReaderEnv [0] (snd (createDep [0, 0] arrayWatched))" .
  have r: "\<exists>s'. trigger arrayReaderEnv 2 ADD (Some (KIdx 0)) (VNum 7) arrayWatched = Returned () s' \<and>
         counterAt 100 s' = 2"
    unfolding t by (rule arrayWatched_executeAll)
  show ?thesis
    by (intro conjI) (rule arrayWatched_facts(2), rule arrayWatched_facts(3),
        rule arrayWatched_affected(1), rule k, rule arrayWatched_facts(5), rule r)
qed

lemma arrayRerunning_facts:
  "activeEffect arrayRerunning = Some 0"
  "\<not> allowRecurse (effects arrayRerunning 0)"
  "targetMap arrayRerunning 2 = Some [(KIdx 0, 0), (KLength, 1)]"
  "subs (depStore arrayRerunning 0) = [0]"
  "subs (depStore arrayRerunning 1) = [0]"
  "counterAt 100 arrayRerunning = 1"
  "affectedDeps arrayReaderEnv arrayRerunning 2 ADD (Some (KIdx 0)) (VNum 7) [(KIdx 0, 0), (KLength, 1)]
     = Inr [Some 0, Some 1]"
  "\<exists>s'. trigger arrayReaderEnv 2 ADD (Some (KIdx 0)) (VNum 7) arrayRerunning = Returned () s' \<and>
        counterAt 100 s' = 1"
  unfolding arrayRerunning_def arrayWatched_def
  by (simp_all add: trigger_def track_defs model_defs config_defs)

text \<open>
  The claim as first stated, that a subscriber in two or more of the affected cells is
  executed exactly once, fails for the active effect. Effect 0 is running and is a member
  of the cells of \<^verbatim>\<open>arr[0]\<close> and of \<^verbatim>\<open>arr.length\<close>; an \<open>ADD\<close> of index 0 affects both
  cells, and the call returns without running effect 0 at all: its counter is 1 before
  and after.
\<close>

theorem trigger_active_subscriber_counterexample:
  "activeEffect arrayRerunning = Some 0 \<and> \<not> allowRecurse (effects arrayRerunning 0) \<and>
   targetMap arrayRerunning 2 = Some [(KIdx 0, 0), (KLength, 1)] \<and>
   subs (depStore arrayRerunning 0) = [0] \<and> subs (depStore arrayRerunning 1) = [0] \<and>
   affectedDeps arrayReaderEnv arrayRerunning 2 ADD (Some (KIdx 0)) (VNum 7) [(KIdx 0, 0), (KLength, 1)]
     = Inr [Some 0, Some 1] \<and>
   counterAt 100 arrayRerunning = 1 \<and>
   (\<exists>s'. trigger arrayReaderEnv 2 ADD (Some (KIdx 0)) (VNum 7) arrayRerunning = Returned () s' \<and>
         counterAt 100 s' = 1)"
  using arrayRerunning_facts by (simp del: One_nat_def)

lemma trackEffects_computeds:
  assumes "trackEffects d s = Returned u s'"
  shows "computeds s' = computeds s"
  using assms
  by (auto simp: trackEffects_def Let_def depAdd_def split: if_splits option.splits)

lemma setDep_frame [simp]:
  "activeEffect (setDep r d s) = activeEffect s"
  "shouldTrack (setDep r d s) = shouldTrack s"
  "trackStack (setDep r d s) = trackStack s"
  "effects (setDep r d s) = effects s"
  "depStore (setDep r d s) = depStore s"
  "effectTrackDepth (setDep r d s) = effectTrackDepth s"
  by (cases r; simp)+

lemma trackRefValue_returns: "\<exists>s'. trackRefValue r s = Returned () s'"
  by (auto simp: trackRefValue_def trackEffects_def Let_def createDep_def split: option.splits prod.splits)

lemma trackRefValue_computed:
  assumes "trackRefValue r s = Returned u s'"
  shows "c_dirty (computeds s' c) = c_dirty (computeds s c) \<and>
         c_cacheable (computeds s' c) = c_cacheable (computeds s c) \<and>
         c_value (computeds s' c) = c_value (computeds s c) \<and>
         c_effect (computeds s' c) = c_effect (computeds s c)"
proof (cases "shouldTrack s \<and> activeEffect s \<noteq> None")
  case False
  then show ?thesis using assms by (auto simp: trackRefValue_def)
next
  case True
  show ?thesis
  proof (cases "depOf s r")
    case (Some d)
    then have "trackEffects d s = Returned u s'"
      using assms True by (simp add: trackRefValue_def)
    from trackEffects_computeds [OF this] show ?thesis by simp
  next
    case None
    then have "trackEffects (fst (createDep [] s)) (setDep r (fst (createDep [] s)) (snd (createDep [] s)))
                 = Returned u s'"
      using assms True by (simp add: trackRefValue_def split: prod.splits)
    from trackEffects_computeds [OF this] show ?thesis
      by (cases r) (simp_all add: createDep_def)
  qed
qed

lemma finalizeLoop_computeds:
  "finalizeLoop e ds kept s = (kept', s') \<Longrightarrow> computeds s' = computeds s"
  by (induction e ds kept s rule: finalizeLoop.induct)
     (auto simp: clearBits_def depDelete_def split: if_splits)

lemma runExit_computeds [simp]: "computeds (runExit e l s) = computeds s"
proof -
  obtain kept s' where eq: "finalizeLoop e (deps (effects s e)) [] s = (kept, s')"
    by (cases "finalizeLoop e (deps (effects s e)) [] s") blast
  have "computeds (finalizeDepMarkers e s) = computeds s"
    using finalizeLoop_computeds [OF eq] by (simp add: finalizeDepMarkers_def eq)
  then show ?thesis by (simp add: runExit_def Let_def)
qed

text \<open>
  C3 (as amended). Take a cacheable computed ref (one not created for server-side
  rendering) that is dirty, whose effect is stopped or is not already running, and whose
  getter returns \<open>v\<close> without invalidating the computed ref. The first read of
  \<^verbatim>\<open>.value\<close> tracks the reader, clears the dirty flag, applies the getter once (inside
  \<open>run\<close> when the effect is active), caches \<open>v\<close> and returns it. A second read returns the
  cached \<open>v\<close> and does nothing but track the reader, whatever the environment: the getter
  is not applied again.
\<close>

theorem computed_reads_cache:
  "c_cacheable (computeds s c) \<and> c_dirty (computeds s c) \<and>
   trackRefValue (OfComputed c) s = Returned () s0 \<and> e = c_effect (computeds s c) \<and>
   cleared = s0\<lparr>computeds := (computeds s0)(c := (computeds s0 c)\<lparr>c_dirty := False\<rparr>)\<rparr> \<and>
   (active (effects s0 e) \<longrightarrow> onParentChain (effects s0) e (activeEffect s0) = Some False) \<and>
   fn E e (if active (effects s0 e) then runEnter e cleared else cleared) = Returned v sg \<and>
   \<not> c_dirty (computeds sg c) \<and> c_cacheable (computeds sg c) \<and>
   left = (if active (effects s0 e) then runExit e (shouldTrack s0) sg else sg) \<and>
   s1 = left\<lparr>computeds := (computeds left)(c := (computeds left c)\<lparr>c_value := v\<rparr>)\<rparr> \<longrightarrow>
     ComputedRefImpl_get_value E c s = Returned v s1 \<and>
     \<not> c_dirty (computeds s1 c) \<and> c_value (computeds s1 c) = v \<and>
     (\<exists>s2. trackRefValue (OfComputed c) s1 = Returned () s2 \<and>
           ComputedRefImpl_get_value E' c s1 = Returned v s2)"
proof (intro impI, elim conjE)
  assume ca: "c_cacheable (computeds s c)" and di: "c_dirty (computeds s c)"
    and tr: "trackRefValue (OfComputed c) s = Returned () s0"
    and e: "e = c_effect (computeds s c)"
    and cl: "cleared = s0\<lparr>computeds := (computeds s0)(c := (computeds s0 c)\<lparr>c_dirty := False\<rparr>)\<rparr>"
    and ch: "active (effects s0 e) \<longrightarrow> onParentChain (effects s0) e (activeEffect s0) = Some False"
    and f: "fn E e (if active (effects s0 e) then runEnter e cleared else cleared) = Returned v sg"
    and nd: "\<not> c_dirty (computeds sg c)" and sc: "c_cacheable (computeds sg c)"
    and le: "left = (if active (effects s0 e) then runExit e (shouldTrack s0) sg else sg)"
    and s1: "s1 = left\<lparr>computeds := (computeds left)(c := (computeds left c)\<lparr>c_value := v\<rparr>)\<rparr>"
  note t0 = trackRefValue_computed [OF tr, of c]
  have cf: "effects cleared = effects s0" "activeEffect cleared = activeEffect s0"
    "shouldTrack cleared = shouldTrack s0"
    by (simp_all add: cl)
  have r: "run E e cleared = Returned v left"
  proof (cases "active (effects s0 e)")
    case True
    then show ?thesis using f ch by (simp add: run_def cf le tryFinally_def)
  next
    case False
    then show ?thesis using f by (simp add: run_def cf le)
  qed
  have first: "ComputedRefImpl_get_value E c s = Returned v s1"
    using tr di t0 r e by (simp add: ComputedRefImpl_get_value_def andThen_def cl s1)
  have lc: "computeds left = computeds sg" by (simp add: le)
  have d1: "\<not> c_dirty (computeds s1 c)" "c_cacheable (computeds s1 c)" "c_value (computeds s1 c) = v"
    using nd sc by (simp_all add: s1 lc)
  obtain s2 where t2: "trackRefValue (OfComputed c) s1 = Returned () s2"
    using trackRefValue_returns by blast
  note t1 = trackRefValue_computed [OF t2, of c]
  have second: "ComputedRefImpl_get_value E' c s1 = Returned v s2"
    using t2 t1 d1 by (simp add: ComputedRefImpl_get_value_def andThen_def)
  show "ComputedRefImpl_get_value E c s = Returned v s1 \<and>
     \<not> c_dirty (computeds s1 c) \<and> c_value (computeds s1 c) = v \<and>
     (\<exists>s2. trackRefValue (OfComputed c) s1 = Returned () s2 \<and>
           ComputedRefImpl_get_value E' c s1 = Returned v s2)"
    using first d1 t2 second by blast
qed
lemmas computed_defs = computedState_def computedCleared_def getterReturned_def
  computedReadOnce_def newComputedRefImpl_def

lemma computedState_facts:
  "c_cacheable (computeds computedState 0)" "c_dirty (computeds computedState 0)"
  "trackRefValue (OfComputed 0) computedState = Returned () computedState"
  "c_effect (computeds computedState 0) = 3"
  "active (effects computedState 3)"
  "onParentChain (effects computedState) 3 (activeEffect computedState) = Some False"
  "shouldTrack computedState"
  "counterAt 100 computedState = 0"
  by (simp_all add: computed_defs model_defs config_defs)

lemma getterReturned_facts:
  "fn refReaderEnv 3 (runEnter 3 computedCleared) = Returned (VNum 1) getterReturned"
  "\<not> c_dirty (computeds getterReturned 0)" "c_cacheable (computeds getterReturned 0)"
  "counterAt 100 getterReturned = 1"
  by (simp_all add: computed_defs model_defs config_defs)

lemma computedReadOnce_facts:
  "counterAt 100 computedReadOnce = 1"
  "trackRefValue (OfComputed 0) computedReadOnce = Returned () computedReadOnce"
  by (simp_all add: computed_defs model_defs config_defs)

text \<open>
  The first read of \<^verbatim>\<open>c.value\<close> returns 1 and the getter has run once; the second read
  returns 1 and leaves the state as it is: the getter has still run once.
\<close>

theorem computed_reads_cache_witness:
  "counterAt 100 computedState = 0 \<and>
   ComputedRefImpl_get_value refReaderEnv 0 computedState = Returned (VNum 1) computedReadOnce \<and>
   counterAt 100 computedReadOnce = 1 \<and>
   ComputedRefImpl_get_value refReaderEnv 0 computedReadOnce = Returned (VNum 1) computedReadOnce"
proof -
  have pre:
    "c_cacheable (computeds computedState 0) \<and> c_dirty (computeds computedState 0) \<and>
     trackRefValue (OfComputed 0) computedState = Returned () computedState \<and>
     3 = c_effect (computeds computedState 0) \<and>
     computedCleared = computedState\<lparr>computeds := (computeds computedState)
        (0 := (computeds computedState 0)\<lparr>c_dirty := False\<rparr>)\<rparr> \<and>
     (active (effects computedState 3) \<longrightarrow>
        onParentChain (effects computedState) 3 (activeEffect computedState) = Some False) \<and>
     fn refReaderEnv 3 (if active (effects computedState 3) then runEnter 3 computedCleared
                        else computedCleared) = Returned (VNum 1) getterReturned \<and>
     \<not> c_dirty (computeds getterReturned 0) \<and> c_cacheable (computeds getterReturned 0) \<and>
     runExit 3 True getterReturned =
       (if active (effects computedState 3) then runExit 3 (shouldTrack computedState) getterReturned
        else getterReturned) \<and>
     computedReadOnce = (runExit 3 True getterReturned)
       \<lparr>computeds := (computeds (runExit 3 True getterReturned))
          (0 := (computeds (runExit 3 True getterReturned) 0)\<lparr>c_value := VNum 1\<rparr>)\<rparr>"
    using computedState_facts getterReturned_facts
    by (simp add: computedCleared_def computedReadOnce_def)
  note T = computed_reads_cache [of computedState 0 computedState 3 computedCleared refReaderEnv
      "VNum 1" getterReturned "runExit 3 True getterReturned" computedReadOnce refReaderEnv,
      THEN mp, OF pre]
  have first: "ComputedRefImpl_get_value refReaderEnv 0 computedState = Returned (VNum 1) computedReadOnce"
    using T by blast
  have second: "ComputedRefImpl_get_value refReaderEnv 0 computedReadOnce = Returned (VNum 1) computedReadOnce"
    using T computedReadOnce_facts(2) by auto
  show ?thesis
    using first second computedState_facts(8) computedReadOnce_facts(1) by blast
qed

lemma ssr_facts:
  "\<not> c_cacheable (computeds ssrComputedState 0)"
  "counterAt 100 ssrComputedState = 0"
  "ComputedRefImpl_get_value refReaderEnv 0 ssrComputedState = Returned (VNum 1) ssrReadOnce"
  "counterAt 100 ssrReadOnce = 1"
  by (simp_all add: ssrComputedState_def ssrReadOnce_def newComputedRefImpl_def
      ComputedRefImpl_get_value_def model_defs config_defs)

lemma ssr_second:
  "ComputedRefImpl_get_value refReaderEnv 0 ssrReadOnce = Returned (VNum 1) ssrReadTwice"
  "counterAt 100 ssrReadTwice = 2"
  by (simp_all add: ssrComputedState_def ssrReadOnce_def ssrReadTwice_def newComputedRefImpl_def
      ComputedRefImpl_get_value_def model_defs config_defs)

text \<open>
  The claim as first stated, for every computed value, fails on a computed ref created with
  \<^verbatim>\<open>isSSR\<close> set, which is not cacheable: two reads with nothing in between apply the
  getter twice.
\<close>

theorem computed_not_cacheable_counterexample:
  "\<not> c_cacheable (computeds ssrComputedState 0) \<and> counterAt 100 ssrComputedState = 0 \<and>
   ComputedRefImpl_get_value refReaderEnv 0 ssrComputedState = Returned (VNum 1) ssrReadOnce \<and>
   ComputedRefImpl_get_value refReaderEnv 0 ssrReadOnce = Returned (VNum 1) ssrReadTwice \<and>
   counterAt 100 ssrReadTwice = 2"
  using ssr_facts ssr_second by blast

lemma andThen_simps [simp]:
  "andThen (Returned a s) f = f a s"
  "andThen (Threw x s) f = Threw x s"
  "andThen NoReturn f = NoReturn"
  by (simp_all add: andThen_def)

text \<open>
  C1 (as amended). Take a write through the set trap of a mutable (deep or shallow) proxy
  that is neither refused by the read-only-ref guard nor redirected into the ref the slot
  holds, so that \<^verbatim>\<open>Reflect.set\<close> is performed, and let \<open>newRaw\<close> and \<open>oldRaw\<close> be the new
  and the old value as the trap compares them (both passed through \<open>toRaw\<close> in deep mode
  when the new value is neither read-only nor shallow, both as they are otherwise). When
  the target is the raw object of the receiver: if the key did not exist (for an array and
  an integer key: the index is not below the old length), the trap calls \<open>trigger\<close> once,
  with \<open>ADD\<close>; if it existed and \<open>newRaw\<close> differs from \<open>oldRaw\<close>, once, with \<open>SET\<close>; if
  it existed and they are the same, the trap returns straight after the write. When the
  target is not the raw object of the receiver the trap returns straight after the write.
  The refused write returns \<open>False\<close> with the state unchanged; the redirected write is the
  assignment to the ref's \<^verbatim>\<open>value\<close>: neither calls \<open>trigger\<close>.
\<close>

theorem createSetter_trigger_kind:
  "oldValue = getProp (heap s target) k \<and>
   unwrap = (\<not> shallow \<and> \<not> isReadonly v \<and> \<not> isShallow v) \<and>
   newRaw = (if unwrap then toRaw v else v) \<and>
   oldRaw = (if unwrap then toRaw oldValue else oldValue) \<and>
   refused = (isReadonly oldValue \<and> isRef oldValue \<and> \<not> isRef v) \<and>
   redirected = (\<not> shallow \<and> \<not> isReadonly v \<and> \<not> isArrayObj (heap s target) \<and>
                 isRef oldRaw \<and> \<not> isRef newRaw) \<and>
   hadKey = (if isArrayObj (heap s target) \<and> isIntegerKey k
             then numberOfKey k < len (heap s target) else hasOwn (heap s target) k) \<longrightarrow>
     (refused \<longrightarrow> createSetter shallow E target k v receiver s = Returned False s) \<and>
     (\<not> refused \<and> redirected \<longrightarrow>
        createSetter shallow E target k v receiver s =
          andThen (assignRefValue E oldRaw newRaw s) (\<lambda>_ s'. Returned True s')) \<and>
     (\<not> refused \<and> \<not> redirected \<and> reflectSet E target k newRaw receiver s = Returned result s1 \<longrightarrow>
        (VObj target = toRaw receiver \<and> \<not> hadKey \<longrightarrow>
           createSetter shallow E target k v receiver s =
             andThen (trigger E target ADD (Some k) newRaw s1) (\<lambda>_ s2. Returned result s2)) \<and>
        (VObj target = toRaw receiver \<and> hadKey \<and> newRaw \<noteq> oldRaw \<longrightarrow>
           createSetter shallow E target k v receiver s =
             andThen (trigger E target SET (Some k) newRaw s1) (\<lambda>_ s2. Returned result s2)) \<and>
        (VObj target = toRaw receiver \<and> hadKey \<and> newRaw = oldRaw \<longrightarrow>
           createSetter shallow E target k v receiver s = Returned result s1) \<and>
        (VObj target \<noteq> toRaw receiver \<longrightarrow>
           createSetter shallow E target k v receiver s = Returned result s1))"
proof (intro impI, elim conjE)
  assume defs: "oldValue = getProp (heap s target) k"
    "unwrap = (\<not> shallow \<and> \<not> isReadonly v \<and> \<not> isShallow v)"
    "newRaw = (if unwrap then toRaw v else v)"
    "oldRaw = (if unwrap then toRaw oldValue else oldValue)"
    "refused = (isReadonly oldValue \<and> isRef oldValue \<and> \<not> isRef v)"
    "redirected = (\<not> shallow \<and> \<not> isReadonly v \<and> \<not> isArrayObj (heap s target) \<and>
                 isRef oldRaw \<and> \<not> isRef newRaw)"
    "hadKey = (if isArrayObj (heap s target) \<and> isIntegerKey k
             then numberOfKey k < len (heap s target) else hasOwn (heap s target) k)"
  have body: "createSetter shallow E target k v receiver s =
      (if refused then Returned False s
       else if redirected then andThen (assignRefValue E oldRaw newRaw s) (\<lambda>_ s'. Returned True s')
       else andThen (reflectSet E target k newRaw receiver s)
              (\<lambda>result s1.
                 if VObj target = toRaw receiver then
                   (if \<not> hadKey then
                      andThen (trigger E target ADD (Some k) newRaw s1) (\<lambda>_ s2. Returned result s2)
                    else if newRaw \<noteq> oldRaw then
                      andThen (trigger E target SET (Some k) newRaw s1) (\<lambda>_ s2. Returned result s2)
                    else Returned result s1)
                 else Returned result s1))"
    unfolding createSetter_def Let_def hasChanged_def defs by (rule refl)
  show "(refused \<longrightarrow> createSetter shallow E target k v receiver s = Returned False s) \<and>
     (\<not> refused \<and> redirected \<longrightarrow>
        createSetter shallow E target k v receiver s =
          andThen (assignRefValue E oldRaw newRaw s) (\<lambda>_ s'. Returned True s')) \<and>
     (\<not> refused \<and> \<not> redirected \<and> reflectSet E target k newRaw receiver s = Returned result s1 \<longrightarrow>
        (VObj target = toRaw receiver \<and> \<not> hadKey \<longrightarrow>
           createSetter shallow E target k v receiver s =
             andThen (trigger E target ADD (Some k) newRaw s1) (\<lambda>_ s2. Returned result s2)) \<and>
        (VObj target = toRaw receiver \<and> hadKey \<and> newRaw \<noteq> oldRaw \<longrightarrow>
           createSetter shallow E target k v receiver s =
             andThen (trigger E target SET (Some k) newRaw s1) (\<lambda>_ s2. Returned result s2)) \<and>
        (VObj target = toRaw receiver \<and> hadKey \<and> newRaw = oldRaw \<longrightarrow>
           createSetter shallow E target k v receiver s = Returned result s1) \<and>
        (VObj target \<noteq> toRaw receiver \<longrightarrow>
           createSetter shallow E target k v receiver s = Returned result s1))"
    unfolding body by auto
qed

lemmas setter_defs = keysReaderEnv_def countingEnv_def objectWatched_def plainObjectState_def
  objProxy_def writtenA2_def writtenA1_def writtenB5_def dataPropertySet_def isArrayIndex_def getProp_def
  hasOwn_def trigger_def refHolderState_def refHolderWatched_def refHolderAssigned_def

lemma objectWatched_facts:
  "getProp (heap objectWatched 1) (KName ''a'') = VNum 1"
  "\<not> isArrayObj (heap objectWatched 1)"
  "hasOwn (heap objectWatched 1) (KName ''a'')"
  "\<not> hasOwn (heap objectWatched 1) (KName ''b'')"
  "getProp (heap objectWatched 1) (KName ''b'') = VUndefined"
  "counterAt 201 objectWatched = 0"
  "toRaw objProxy = VObj 1"
  by (simp_all add: setter_defs track_defs model_defs config_defs)

lemma objectWatched_writes:
  "reflectSet keysReaderEnv 1 (KName ''a'') (VNum 2) objProxy objectWatched = Returned True writtenA2"
  "reflectSet keysReaderEnv 1 (KName ''a'') (VNum 1) objProxy objectWatched = Returned True writtenA1"
  "reflectSet keysReaderEnv 1 (KName ''b'') (VNum 5) objProxy objectWatched = Returned True writtenB5"
  by (simp_all add: setter_defs track_defs model_defs config_defs)

lemma objectWatched_triggers:
  "\<exists>s'. trigger keysReaderEnv 1 SET (Some (KName ''a'')) (VNum 2) writtenA2 = Returned () s' \<and>
        counterAt 201 s' = 1 \<and> getProp (heap s' 1) (KName ''a'') = VNum 2"
  "\<exists>s'. trigger keysReaderEnv 1 ADD (Some (KName ''b'')) (VNum 5) writtenB5 = Returned () s' \<and>
        counterAt 201 s' = 1 \<and> getProp (heap s' 1) (KName ''b'') = VNum 5"
  "counterAt 201 writtenA1 = 0"
  by (simp_all add: setter_defs track_defs model_defs config_defs)

text \<open>
  On the watched object \<^verbatim>\<open>{ a: 1 }\<close>: \<^verbatim>\<open>obj.a = 2\<close> is a \<open>SET\<close> and the scheduler is
  called once; \<^verbatim>\<open>obj.a = 1\<close> changes nothing and calls nothing; \<^verbatim>\<open>obj.b = 5\<close> is an
  \<open>ADD\<close> and the scheduler of the effect that enumerates the keys is called once.
\<close>

theorem createSetter_trigger_kind_witness:
  "createSetter False keysReaderEnv 1 (KName ''a'') (VNum 2) objProxy objectWatched =
     andThen (trigger keysReaderEnv 1 SET (Some (KName ''a'')) (VNum 2) writtenA2)
       (\<lambda>_ s2. Returned True s2) \<and>
   (\<exists>s'. createSetter False keysReaderEnv 1 (KName ''a'') (VNum 2) objProxy objectWatched =
            Returned True s' \<and> counterAt 201 s' = 1) \<and>
   createSetter False keysReaderEnv 1 (KName ''a'') (VNum 1) objProxy objectWatched =
     Returned True writtenA1 \<and> counterAt 201 writtenA1 = 0 \<and>
   createSetter False keysReaderEnv 1 (KName ''b'') (VNum 5) objProxy objectWatched =
     andThen (trigger keysReaderEnv 1 ADD (Some (KName ''b'')) (VNum 5) writtenB5)
       (\<lambda>_ s2. Returned True s2) \<and>
   (\<exists>s'. createSetter False keysReaderEnv 1 (KName ''b'') (VNum 5) objProxy objectWatched =
            Returned True s' \<and> counterAt 201 s' = 1)"
proof -
  note f = objectWatched_facts
  have a2: "createSetter False keysReaderEnv 1 (KName ''a'') (VNum 2) objProxy objectWatched =
     andThen (trigger keysReaderEnv 1 SET (Some (KName ''a'')) (VNum 2) writtenA2)
       (\<lambda>_ s2. Returned True s2)"
    using createSetter_trigger_kind [where s = objectWatched and target = 1 and k = "KName ''a''"
        and v = "VNum 2" and shallow = False and E = keysReaderEnv and receiver = objProxy
        and oldValue = "VNum 1" and unwrap = True and newRaw = "VNum 2" and oldRaw = "VNum 1"
        and refused = False and redirected = False and hadKey = True and result = True
        and ?s1.0 = writtenA2]
    by (simp add: f objectWatched_writes del: One_nat_def)
  have a1: "createSetter False keysReaderEnv 1 (KName ''a'') (VNum 1) objProxy objectWatched =
     Returned True writtenA1"
    using createSetter_trigger_kind [where s = objectWatched and target = 1 and k = "KName ''a''"
        and v = "VNum 1" and shallow = False and E = keysReaderEnv and receiver = objProxy
        and oldValue = "VNum 1" and unwrap = True and newRaw = "VNum 1" and oldRaw = "VNum 1"
        and refused = False and redirected = False and hadKey = True and result = True
        and ?s1.0 = writtenA1]
    by (simp add: f objectWatched_writes del: One_nat_def)
  have b5: "createSetter False keysReaderEnv 1 (KName ''b'') (VNum 5) objProxy objectWatched =
     andThen (trigger keysReaderEnv 1 ADD (Some (KName ''b'')) (VNum 5) writtenB5)
       (\<lambda>_ s2. Returned True s2)"
    using createSetter_trigger_kind [where s = objectWatched and target = 1 and k = "KName ''b''"
        and v = "VNum 5" and shallow = False and E = keysReaderEnv and receiver = objProxy
        and oldValue = VUndefined and unwrap = True and newRaw = "VNum 5" and oldRaw = VUndefined
        and refused = False and redirected = False and hadKey = False and result = True
        and ?s1.0 = writtenB5]
    by (simp add: f objectWatched_writes del: One_nat_def)
  obtain sa where sa: "trigger keysReaderEnv 1 SET (Some (KName ''a'')) (VNum 2) writtenA2 = Returned () sa"
      "counterAt 201 sa = 1"
    using objectWatched_triggers(1) by blast
  obtain sb where sb: "trigger keysReaderEnv 1 ADD (Some (KName ''b'')) (VNum 5) writtenB5 = Returned () sb"
      "counterAt 201 sb = 1"
    using objectWatched_triggers(2) by blast
  have a2': "\<exists>s'. createSetter False keysReaderEnv 1 (KName ''a'') (VNum 2) objProxy objectWatched =
            Returned True s' \<and> counterAt 201 s' = 1"
    unfolding a2 using sa by simp
  have b5': "\<exists>s'. createSetter False keysReaderEnv 1 (KName ''b'') (VNum 5) objProxy objectWatched =
            Returned True s' \<and> counterAt 201 s' = 1"
    unfolding b5 using sb by simp
  show ?thesis
    by (intro conjI) (rule a2, rule a2', rule a1, rule objectWatched_triggers(3), rule b5, rule b5')
qed

lemma refHolder_facts:
  "hasOwn (heap refHolderWatched 1) (KName ''a'')"
  "getProp (heap refHolderWatched 1) (KName ''a'') = VRefImpl 0 False"
  "targetMap refHolderWatched 1 = Some [(KName ''a'', 0), (KIterate, 1)]"
  "subs (depStore refHolderWatched 0) = [1]"
  "counterAt 201 refHolderWatched = 0"
  by (simp_all add: setter_defs track_defs model_defs config_defs)

lemma refHolder_assign:
  "createSetter False keysReaderEnv 1 (KName ''a'') (VNum 2) objProxy refHolderWatched =
     Returned True refHolderAssigned"
  "counterAt 201 refHolderAssigned = 0"
  "getProp (heap refHolderAssigned 1) (KName ''a'') = VRefImpl 0 False"
  "ref_rawValue (refs refHolderAssigned 0) = VNum 2"
  by (simp_all add: createSetter_def setter_defs track_defs model_defs config_defs)

lemma refHolder_trigger:
  "\<exists>s'. trigger keysReaderEnv 1 SET (Some (KName ''a'')) (VNum 2) refHolderAssigned = Returned () s' \<and>
        counterAt 201 s' = 1"
  by (simp add: createSetter_def setter_defs track_defs model_defs config_defs)

lemma objHolder_facts:
  "hasOwn (heap objHolderWatched 1) (KName ''a'')"
  "getProp (heap objHolderWatched 1) (KName ''a'') = VObj 7"
  "counterAt 201 objHolderWatched = 0"
  "createSetter False keysReaderEnv 1 (KName ''a'') (VProxy Readonly (VObj 7)) objProxy objHolderWatched =
     Returned True objHolderAssigned"
  "counterAt 201 objHolderAssigned = 1"
  "getProp (heap objHolderAssigned 1) (KName ''a'') = VProxy Readonly (VObj 7)"
  by (simp_all add: objHolderState_def objHolderWatched_def objHolderAssigned_def createSetter_def
      setter_defs track_defs model_defs config_defs)

text \<open>
  The claim as first stated fails in both directions, on writes made on the proxy of the
  raw target to a key that exists.

  The raw values differ and no \<open>trigger\<close> is called: on \<^verbatim>\<open>{ a: r }\<close> with \<^verbatim>\<open>r = ref(1)\<close>,
  the write \<^verbatim>\<open>obj.a = 2\<close> assigns \<^verbatim>\<open>r.value = 2\<close> and returns; the slot still holds \<open>r\<close>, and
  the subscriber of the slot's cell, which a \<open>SET\<close> trigger would have scheduled, is not
  scheduled.

  The raw values are the same and \<open>trigger\<close> is called with \<open>SET\<close>: on \<^verbatim>\<open>{ a: x }\<close> with
  \<open>x\<close> a raw object, the write \<^verbatim>\<open>obj.a = readonly(x)\<close> compares the read-only proxy with
  \<open>x\<close> as they are, stores the proxy and schedules the subscriber of the slot's cell.
\<close>

theorem createSetter_ref_slot_counterexample:
  "toRaw objProxy = VObj 1 \<and>
   hasOwn (heap refHolderWatched 1) (KName ''a'') \<and>
   getProp (heap refHolderWatched 1) (KName ''a'') = VRefImpl 0 False \<and>
   hasChanged (toRaw (VNum 2)) (toRaw (VRefImpl 0 False)) \<and>
   targetMap refHolderWatched 1 = Some [(KName ''a'', 0), (KIterate, 1)] \<and>
   subs (depStore refHolderWatched 0) = [1] \<and>
   counterAt 201 refHolderWatched = 0 \<and>
   createSetter False keysReaderEnv 1 (KName ''a'') (VNum 2) objProxy refHolderWatched =
     Returned True refHolderAssigned \<and>
   counterAt 201 refHolderAssigned = 0 \<and>
   getProp (heap refHolderAssigned 1) (KName ''a'') = VRefImpl 0 False \<and>
   ref_rawValue (refs refHolderAssigned 0) = VNum 2 \<and>
   (\<exists>s'. trigger keysReaderEnv 1 SET (Some (KName ''a'')) (VNum 2) refHolderAssigned = Returned () s' \<and>
         counterAt 201 s' = 1) \<and>
   hasOwn (heap objHolderWatched 1) (KName ''a'') \<and>
   getProp (heap objHolderWatched 1) (KName ''a'') = VObj 7 \<and>
   toRaw (VProxy Readonly (VObj 7)) = toRaw (VObj 7) \<and>
   counterAt 201 objHolderWatched = 0 \<and>
   createSetter False keysReaderEnv 1 (KName ''a'') (VProxy Readonly (VObj 7)) objProxy objHolderWatched =
     Returned True objHolderAssigned \<and>
   counterAt 201 objHolderAssigned = 1 \<and>
   getProp (heap objHolderAssigned 1) (KName ''a'') = VProxy Readonly (VObj 7)"
  using refHolder_facts refHolder_assign refHolder_trigger objectWatched_facts(7) objHolder_facts
  by (simp add: hasChanged_def toRaw.simps del: One_nat_def)

lemma pauseTracking_frame [simp]:
  "shouldTrack (pauseTracking s) = False"
  "trackStack (pauseTracking s) = trackStack s @ [shouldTrack s]"
  "activeEffect (pauseTracking s) = activeEffect s"
  "effects (pauseTracking s) = effects s"
  "depStore (pauseTracking s) = depStore s"
  "targetMap (pauseTracking s) = targetMap s"
  by (simp_all add: pauseTracking_def)

lemma resetTracking_pauseTracking [simp]: "resetTracking (pauseTracking s) = s"
  by (simp add: resetTracking_def pauseTracking_def)

lemma resetTracking_after:
  assumes "trackStack s' = trackStack s @ [b]"
  shows "shouldTrack (resetTracking s') = b" and "trackStack (resetTracking s') = trackStack s"
  using assms by (simp_all add: resetTracking_def)

lemma read_paused:
  assumes "\<not> shouldTrack s" and "isRead st"
  shows "performStep st s = Returned VUndefined s"
  using assms by (cases st) (simp_all add: track_def trackRefValue_def)

lemma performSteps_paused:
  assumes "othersKeepTracking sts" and "\<not> shouldTrack s"
  shows "performSteps sts s = performSteps (filter (\<lambda>st. \<not> isRead st) sts) s"
  using assms
proof (induction sts arbitrary: s)
  case Nil
  then show ?case by simp
next
  case (Cons st sts)
  have tl: "othersKeepTracking sts"
    using Cons.prems(1) by (auto simp: othersKeepTracking_def)
  show ?case
  proof (cases "isRead st")
    case True
    then show ?thesis
      using Cons.IH [OF tl Cons.prems(2)] read_paused [OF Cons.prems(2) True] by simp
  next
    case False
    then obtain f where st: "st = Other f" by (cases st) auto
    have kf: "keepsTracking f"
      using Cons.prems(1) st by (auto simp: othersKeepTracking_def)
    show ?thesis
    proof (cases "f s")
      case (Returned v s')
      then have "\<not> shouldTrack s'"
        using kf Cons.prems(2) by (auto simp: keepsTracking_def)
      then show ?thesis using Cons.IH [OF tl, of s'] Returned st by simp
    qed (simp_all add: st)
  qed
qed

lemma performSteps_keeps:
  assumes "othersKeepTracking sts" and "\<not> shouldTrack s"
    and "performSteps sts s = Returned v s'"
  shows "\<not> shouldTrack s' \<and> trackStack s' = trackStack s"
  using assms
proof (induction sts arbitrary: s)
  case Nil
  then show ?case by simp
next
  case (Cons st sts)
  have tl: "othersKeepTracking sts"
    using Cons.prems(1) by (auto simp: othersKeepTracking_def)
  show ?case
  proof (cases "isRead st")
    case True
    then show ?thesis
      using Cons.IH [OF tl Cons.prems(2)] read_paused [OF Cons.prems(2) True] Cons.prems(3) by simp
  next
    case False
    then obtain f where st: "st = Other f" by (cases st) auto
    have kf: "keepsTracking f"
      using Cons.prems(1) st by (auto simp: othersKeepTracking_def)
    show ?thesis
    proof (cases "f s")
      case (Returned w s1)
      then have k1: "\<not> shouldTrack s1" "trackStack s1 = trackStack s"
        using kf Cons.prems(2) by (auto simp: keepsTracking_def)
      have "performSteps sts s1 = Returned v s'"
        using Cons.prems(3) Returned st by simp
      from Cons.IH [OF tl k1(1) this] show ?thesis by (simp add: k1(2))
    next
      case (Threw x s1)
      then show ?thesis using Cons.prems(3) st by simp
    next
      case NoReturn
      then show ?thesis using Cons.prems(3) st by simp
    qed
  qed
qed

lemma othersKeepTracking_take:
  assumes "othersKeepTracking sts"
  shows "othersKeepTracking (take n sts)"
  using assms by (auto simp: othersKeepTracking_def dest: in_set_takeD)

text \<open>
  The instrumented length-altering methods on a call of the built-in method that returns.
  The instrumented method first stores the tracking flag and switches it off, then applies
  the built-in method to the proxy, and restores the flag once the built-in method has
  returned. Whatever the method does through the proxy's traps, as long as the other code
  it sets off keeps the tracking switch: the flag is off after every one of its steps,
  each read it makes (a \<open>track\<close> or \<open>trackRefValue\<close> call) returns with the state
  unchanged, so the call is the same as if the method had made no read at all and no
  dependency edge comes from its reads; and when the method returns, the flag and the
  stack are what they were before the call. An exception of the built-in method leaves the
  instrumented method with the state the built-in method left.
\<close>

theorem lengthAltering_pauses_tracking:
  "\<not> shouldTrack (pauseTracking s) \<and>
   lengthAltering body s = andThen (body (pauseTracking s)) (\<lambda>res s'. Returned res (resetTracking s')) \<and>
   (othersKeepTracking sts \<longrightarrow>
      (\<forall>n v sn. performSteps (take n sts) (pauseTracking s) = Returned v sn \<longrightarrow> \<not> shouldTrack sn) \<and>
      (\<forall>st \<in> set sts. \<forall>s'. isRead st \<and> \<not> shouldTrack s' \<longrightarrow> performStep st s' = Returned VUndefined s') \<and>
      lengthAltering (arrayMethod sts ret) s =
        lengthAltering (arrayMethod (filter (\<lambda>st. \<not> isRead st) sts) ret) s \<and>
      (\<forall>res s'. lengthAltering (arrayMethod sts ret) s = Returned res s' \<longrightarrow>
         shouldTrack s' = shouldTrack s \<and> trackStack s' = trackStack s)) \<and>
   (\<forall>x s1. body (pauseTracking s) = Threw x s1 \<longrightarrow> lengthAltering body s = Threw x s1)"
proof -
  have p1: "\<not> shouldTrack (pauseTracking s)" by simp
  have p7: "\<forall>x s1. body (pauseTracking s) = Threw x s1 \<longrightarrow> lengthAltering body s = Threw x s1"
    by (simp add: lengthAltering_def)
  have p2: "lengthAltering body s =
      andThen (body (pauseTracking s)) (\<lambda>res s'. Returned res (resetTracking s'))"
    by (simp add: lengthAltering_def)
  have p3: "\<forall>n v sn. performSteps (take n sts) (pauseTracking s) = Returned v sn \<longrightarrow> \<not> shouldTrack sn"
    if k: "othersKeepTracking sts"
  proof (intro allI impI)
    fix n v sn
    assume p: "performSteps (take n sts) (pauseTracking s) = Returned v sn"
    show "\<not> shouldTrack sn"
      using performSteps_keeps [OF othersKeepTracking_take [OF k] _ p] by simp
  qed
  have p4: "\<forall>st \<in> set sts. \<forall>s'. isRead st \<and> \<not> shouldTrack s' \<longrightarrow>
      performStep st s' = Returned VUndefined s'"
    using read_paused by blast
  have p5: "lengthAltering (arrayMethod sts ret) s =
        lengthAltering (arrayMethod (filter (\<lambda>st. \<not> isRead st) sts) ret) s"
    if k: "othersKeepTracking sts"
    using performSteps_paused [OF k, of "pauseTracking s"]
    by (simp add: lengthAltering_def arrayMethod_def)
  have p6: "\<forall>res s'. lengthAltering (arrayMethod sts ret) s = Returned res s' \<longrightarrow>
         shouldTrack s' = shouldTrack s \<and> trackStack s' = trackStack s"
    if k: "othersKeepTracking sts"
  proof (intro allI impI)
    fix res s'
    assume r: "lengthAltering (arrayMethod sts ret) s = Returned res s'"
    from r obtain u s1 where p: "performSteps sts (pauseTracking s) = Returned u s1"
      and s': "s' = resetTracking s1"
      by (cases "performSteps sts (pauseTracking s)") (auto simp: lengthAltering_def arrayMethod_def)
    have "trackStack s1 = trackStack s @ [shouldTrack s]"
      using performSteps_keeps [OF k _ p] by simp
    from resetTracking_after [OF this]
    show "shouldTrack s' = shouldTrack s \<and> trackStack s' = trackStack s"
      by (simp add: s')
  qed
  show ?thesis
    using p1 p2 p3 p4 p5 p6 p7 by (intro conjI impI) assumption+
qed

lemma keepsTrackingI:
  assumes "\<And>s v s'. f s = Returned v s' \<Longrightarrow> shouldTrack s' = shouldTrack s \<and> trackStack s' = trackStack s"
  shows "keepsTracking f"
  using assms unfolding keepsTracking_def by blast

lemma keepsTrackingD:
  assumes "keepsTracking f" and "f s = Returned v s'"
  shows "shouldTrack s' = shouldTrack s" and "trackStack s' = trackStack s"
  using assms unfolding keepsTracking_def by blast+

lemma run_keepsTracking:
  assumes "keepsTracking (fn E e)"
  shows "keepsTracking (run E e)"
proof (rule keepsTrackingI)
  fix s v s'
  assume r: "run E e s = Returned v s'"
  show "shouldTrack s' = shouldTrack s \<and> trackStack s' = trackStack s"
  proof (cases "active (effects s e)")
    case False
    then show ?thesis using r keepsTrackingD [OF assms, of s v s'] by (simp add: run_def)
  next
    case True
    show ?thesis
    proof (cases "onParentChain (effects s) e (activeEffect s)")
      case None
      then show ?thesis using r True by (simp add: run_def)
    next
      case (Some b)
      show ?thesis
      proof (cases b)
        case True
        then show ?thesis using r Some \<open>active (effects s e)\<close> by (simp add: run_def)
      next
        case False
        then have "tryFinally (fn E e (runEnter e s)) (runExit e (shouldTrack s)) = Returned v s'"
          using r Some \<open>active (effects s e)\<close> by (simp add: run_def)
        then obtain s1 where f: "fn E e (runEnter e s) = Returned v s1"
          and s': "s' = runExit e (shouldTrack s) s1"
          by (cases "fn E e (runEnter e s)") (auto simp: tryFinally_def)
        show ?thesis using keepsTrackingD(2) [OF assms f] by (simp add: s')
      qed
    qed
  qed
qed

lemma execute_keepsTracking:
  assumes "envKeepsTracking E"
  shows "keepsTracking (execute E e)"
proof (cases "scheduler E e")
  case None
  have "keepsTracking (run E e)"
    using assms by (intro run_keepsTracking) (simp add: envKeepsTracking_def)
  then show ?thesis using None by (simp add: execute_def keepsTracking_def)
next
  case (Some sch)
  then have "keepsTracking sch" using assms by (simp add: envKeepsTracking_def)
  then show ?thesis using Some by (simp add: execute_def keepsTracking_def)
qed

lemma triggerEffectsOver_keepsTracking:
  assumes "envKeepsTracking E"
  shows "keepsTracking (triggerEffectsOver E es)"
proof (rule keepsTrackingI)
  fix s v s'
  assume "triggerEffectsOver E es s = Returned v s'"
  then show "shouldTrack s' = shouldTrack s \<and> trackStack s' = trackStack s"
  proof (induction es arbitrary: s)
    case Nil
    then show ?case by simp
  next
    case (Cons e es)
    show ?case
    proof (cases "activeEffect s \<noteq> Some e \<or> allowRecurse (effects s e)")
      case False
      then show ?thesis using Cons by simp
    next
      case True
      then obtain w s1 where x: "execute E e s = Returned w s1"
        and rest: "triggerEffectsOver E es s1 = Returned v s'"
        using Cons.prems by (cases "execute E e s") (auto simp: execute_def)
      show ?thesis
        using keepsTrackingD [OF execute_keepsTracking [OF assms] x] Cons.IH [OF rest] by simp
    qed
  qed
qed

lemma trigger_keepsTracking:
  assumes "envKeepsTracking E"
  shows "keepsTracking (trigger E target ty k newValue)"
proof (rule keepsTrackingI)
  fix s v s'
  assume t: "trigger E target ty k newValue s = Returned v s'"
  note over = keepsTrackingD [OF triggerEffectsOver_keepsTracking [OF assms]]
  show "shouldTrack s' = shouldTrack s \<and> trackStack s' = trackStack s"
  proof (cases "targetMap s target")
    case None
    then show ?thesis using t by (simp add: trigger_def)
  next
    case (Some depsMap)
    show ?thesis
    proof (cases "affectedDeps E s target ty k newValue depsMap")
      case (Inl x)
      then show ?thesis using t Some by (simp add: trigger_def)
    next
      case (Inr ds)
      show ?thesis
      proof (cases "length ds = 1")
        case True
        show ?thesis
        proof (cases "hd ds")
          case None
          then show ?thesis using t Some Inr True by (simp add: trigger_def)
        next
          case (Some d)
          then have "triggerEffectsOver E (subs (depStore s d)) s = Returned v s'"
            using t \<open>targetMap s target = Some depsMap\<close> Inr True
            by (simp add: trigger_def triggerEffects_def)
          from over [OF this] show ?thesis by simp
        qed
      next
        case False
        have "triggerEffectsOver E (setOf (effectsOf s ds)) (snd (createDep (effectsOf s ds) s))
                = Returned v s'"
          using trigger_many [OF Some Inr False] t by simp
        from over [OF this] show ?thesis by simp
      qed
    qed
  qed
qed

lemma triggerRefValue_keepsTracking:
  assumes "envKeepsTracking E"
  shows "keepsTracking (triggerRefValue E rb)"
proof (rule keepsTrackingI)
  fix s w s'
  assume a: "triggerRefValue E rb s = Returned w s'"
  show "shouldTrack s' = shouldTrack s \<and> trackStack s' = trackStack s"
  proof (cases "depOf s rb")
    case None
    then show ?thesis using a by (simp add: triggerRefValue_def)
  next
    case (Some d)
    then have "triggerEffectsOver E (subs (depStore s d)) s = Returned w s'"
      using a by (simp add: triggerRefValue_def triggerEffects_def)
    from keepsTrackingD [OF triggerEffectsOver_keepsTracking [OF assms] this]
    show ?thesis by simp
  qed
qed

lemma RefImpl_set_value_keepsTracking:
  assumes "envKeepsTracking E"
  shows "keepsTracking (RefImpl_set_value E r v)"
proof (rule keepsTrackingI)
  fix s w s'
  assume a: "RefImpl_set_value E r v s = Returned w s'"
  define raw where "raw = (if ref_isShallow (refs s r) then v else toRaw v)"
  define s1 where "s1 = s\<lparr>refs := (refs s)(r := (refs s r)
                 \<lparr>ref_rawValue := raw,
                  ref_value := (if ref_isShallow (refs s r) then raw else toReactive raw)\<rparr>)\<rparr>"
  show "shouldTrack s' = shouldTrack s \<and> trackStack s' = trackStack s"
  proof (cases "hasChanged raw (ref_rawValue (refs s r))")
    case False
    then show ?thesis using a by (simp add: RefImpl_set_value_def Let_def raw_def)
  next
    case True
    then have "triggerRefValue E (OfRef r) s1 = Returned w s'"
      using a unfolding RefImpl_set_value_def Let_def raw_def s1_def
      by (cases "ref_isShallow (refs s r)") simp_all
    from keepsTrackingD [OF triggerRefValue_keepsTracking [OF assms] this]
    show ?thesis by (simp add: s1_def)
  qed
qed

lemma andThen_Returned_keeps:
  assumes "keepsTracking f"
  shows "keepsTracking (\<lambda>s. andThen (f s) (\<lambda>a s'. Returned (g a) s'))"
  using assms unfolding keepsTracking_def andThen_def
  by (auto split: result.splits)

lemma assignRefValue_other:
  assumes "\<And>r sh. old \<noteq> VRefImpl r sh" and "\<And>c ro. old \<noteq> VComputedRef c ro"
  shows "assignRefValue E old v s = andThen (otherSetValue E old v s) (\<lambda>_ s'. Returned () s')"
proof (cases old)
  case (VRefImpl r sh)
  then show ?thesis using assms(1) by blast
next
  case (VComputedRef c ro)
  then show ?thesis using assms(2) by blast
qed simp_all

lemma assignRefValue_keepsTracking:
  assumes "envKeepsTracking E"
  shows "keepsTracking (assignRefValue E old v)"
proof (rule keepsTrackingI)
  fix s w s'
  assume a: "assignRefValue E old v s = Returned w s'"
  have other: "shouldTrack s' = shouldTrack s \<and> trackStack s' = trackStack s"
    if o: "\<And>r sh. old \<noteq> VRefImpl r sh" "\<And>c ro. old \<noteq> VComputedRef c ro"
  proof -
    have "andThen (otherSetValue E old v s) (\<lambda>_ s'. Returned () s') = Returned w s'"
      using a unfolding assignRefValue_other [OF o, of E v s] .
    then obtain u where u: "otherSetValue E old v s = Returned u s'"
      by (cases "otherSetValue E old v s") simp_all
    have k: "keepsTracking (otherSetValue E old v)"
      using assms by (simp add: envKeepsTracking_def)
    show ?thesis using keepsTrackingD [OF k u] by simp
  qed
  show "shouldTrack s' = shouldTrack s \<and> trackStack s' = trackStack s"
  proof (cases old)
    case (VRefImpl r sh)
    then have "RefImpl_set_value E r v s = Returned w s'" using a by simp
    from keepsTrackingD [OF RefImpl_set_value_keepsTracking [OF assms] this] show ?thesis by simp
  next
    case (VComputedRef c ro)
    then have "andThen (setter E c v s) (\<lambda>_ s'. Returned () s') = Returned w s'"
      using a by (simp add: ComputedRefImpl_set_value_def)
    then obtain u where u: "setter E c v s = Returned u s'"
      by (cases "setter E c v s") simp_all
    have k: "keepsTracking (setter E c v)"
      using assms by (simp add: envKeepsTracking_def)
    show ?thesis using keepsTrackingD [OF k u] by simp
  qed (rule other; simp)+
qed

lemma createSetter_keepsTracking:
  assumes "envKeepsTracking E"
  shows "keepsTracking (createSetter shallow E target k v receiver)"
proof (rule keepsTrackingI)
  fix s w s'
  assume a: "createSetter shallow E target k v receiver s = Returned w s'"
  define oldValue where "oldValue = getProp (heap s target) k"
  define unwrap where "unwrap = (\<not> shallow \<and> \<not> isReadonly v \<and> \<not> isShallow v)"
  define newRaw where "newRaw = (if unwrap then toRaw v else v)"
  define oldRaw where "oldRaw = (if unwrap then toRaw oldValue else oldValue)"
  define refused where "refused = (isReadonly oldValue \<and> isRef oldValue \<and> \<not> isRef v)"
  define redirected where "redirected = (\<not> shallow \<and> \<not> isReadonly v \<and> \<not> isArrayObj (heap s target) \<and>
                 isRef oldRaw \<and> \<not> isRef newRaw)"
  define hadKey where "hadKey = (if isArrayObj (heap s target) \<and> isIntegerKey k
             then numberOfKey k < len (heap s target) else hasOwn (heap s target) k)"
  note defs = oldValue_def unwrap_def newRaw_def oldRaw_def refused_def redirected_def hadKey_def
  have body: "createSetter shallow E target k v receiver s =
      (if refused then Returned False s
       else if redirected then andThen (assignRefValue E oldRaw newRaw s) (\<lambda>_ s'. Returned True s')
       else andThen (reflectSet E target k newRaw receiver s)
              (\<lambda>result s1.
                 if VObj target = toRaw receiver then
                   (if \<not> hadKey then
                      andThen (trigger E target ADD (Some k) newRaw s1) (\<lambda>_ s2. Returned result s2)
                    else if newRaw \<noteq> oldRaw then
                      andThen (trigger E target SET (Some k) newRaw s1) (\<lambda>_ s2. Returned result s2)
                    else Returned result s1)
                 else Returned result s1))"
    unfolding createSetter_def Let_def hasChanged_def defs by (rule refl)
  note tr = keepsTrackingD [OF trigger_keepsTracking [OF assms]]
  note rs = keepsTrackingD [of "reflectSet E target k newRaw receiver"]
  have krs: "keepsTracking (reflectSet E target k newRaw receiver)"
    using assms by (simp add: envKeepsTracking_def)
  show "shouldTrack s' = shouldTrack s \<and> trackStack s' = trackStack s"
  proof (cases refused)
    case True
    then show ?thesis using a by (simp add: body)
  next
    case False
    note nr = False
    show ?thesis
    proof (cases redirected)
      case True
      then obtain u where "assignRefValue E oldRaw newRaw s = Returned u s'"
        using a nr unfolding body by (cases "assignRefValue E oldRaw newRaw s") simp_all
      from keepsTrackingD [OF assignRefValue_keepsTracking [OF assms] this] show ?thesis by simp
    next
      case False
      then obtain res s1 where w: "reflectSet E target k newRaw receiver s = Returned res s1"
        and rest: "(if VObj target = toRaw receiver then
                   (if \<not> hadKey then
                      andThen (trigger E target ADD (Some k) newRaw s1) (\<lambda>_ s2. Returned res s2)
                    else if newRaw \<noteq> oldRaw then
                      andThen (trigger E target SET (Some k) newRaw s1) (\<lambda>_ s2. Returned res s2)
                    else Returned res s1)
                 else Returned res s1) = Returned w s'"
        using a nr unfolding body by (cases "reflectSet E target k newRaw receiver s") simp_all
      note k1 = keepsTrackingD [OF krs w]
      have andk: "shouldTrack s' = shouldTrack s1 \<and> trackStack s' = trackStack s1"
        if "andThen (trigger E target ty (Some k) newRaw s1) (\<lambda>_ s2. Returned res s2) = Returned w s'"
        for ty
      proof -
        from that obtain u where "trigger E target ty (Some k) newRaw s1 = Returned u s'"
          by (cases "trigger E target ty (Some k) newRaw s1") auto
        from tr [OF this] show ?thesis by simp
      qed
      have "shouldTrack s' = shouldTrack s1 \<and> trackStack s' = trackStack s1"
      proof (cases "VObj target = toRaw receiver")
        case False
        then show ?thesis using rest by simp
      next
        case True
        note own = True
        show ?thesis
        proof (cases hadKey)
          case False
          then show ?thesis using rest own andk [of ADD] by simp
        next
          case True
          then show ?thesis using rest own andk [of SET] by (cases "newRaw = oldRaw") simp_all
        qed
      qed
      then show ?thesis using k1 by simp
    qed
  qed
qed
lemma dataPropertySet_keepsTracking: "keepsTracking (dataPropertySet t k v r)"
  by (rule keepsTrackingI)
     (auto simp: dataPropertySet_def Let_def split: jsval.splits if_splits)

lemma arrayReaderEnv_keepsTracking: "envKeepsTracking arrayReaderEnv"
proof -
  have "keepsTracking (fn arrayReaderEnv e)" for e
  proof (rule keepsTrackingI)
    fix s v s'
    assume "fn arrayReaderEnv e s = Returned v s'"
    then obtain s1 s2 where
      t1: "track 2 GET (KIdx 0) s = Returned () s1" and
      t2: "track 2 GET KLength s1 = Returned () s2" and s': "s' = bump 100 s2"
      by (auto simp: arrayReaderEnv_def andThen_def split: result.splits)
    show "shouldTrack s' = shouldTrack s \<and> trackStack s' = trackStack s"
      using track_frame [OF t1] track_frame [OF t2] by (simp add: s')
  qed
  moreover have "keepsTracking (\<lambda>s. Returned VUndefined s)"
    by (rule keepsTrackingI) simp
  ultimately show ?thesis
    by (simp add: envKeepsTracking_def arrayReaderEnv_def quietEnv_def dataPropertySet_keepsTracking)
qed

lemma pushSteps_keepTracking: "othersKeepTracking pushSteps"
proof -
  have "keepsTracking (\<lambda>s. andThen (createSetter False arrayReaderEnv 2 k v arrProxy s)
                    (\<lambda>b s'. Returned (VBool b) s'))" for k v
    by (rule andThen_Returned_keeps [OF createSetter_keepsTracking [OF arrayReaderEnv_keepsTracking]])
  then show ?thesis
    by (auto simp: othersKeepTracking_def pushSteps_def)
qed

lemmas push_defs = pushingState_def pushSteps_def arrProxy_def pushed_def pushedUnpaused_def
  lengthAltering_def arrayMethod_def pushResult_def pauseTracking_def resetTracking_def createSetter_def
  dataPropertySet_def isArrayIndex_def
  getProp_def hasOwn_def trigger_def arrayWatched_def

lemma pushingState_facts:
  "shouldTrack pushingState" "trackStack pushingState = []" "activeEffect pushingState = Some 5"
  "deps (effects pushingState 5) = []" "subs (depStore pushingState 1) = [0]"
  "len (heap pushingState 2) = 0"
  by (simp_all add: push_defs track_defs model_defs config_defs)

lemma pushed_result:
  "lengthAltering (arrayMethod pushSteps pushResult) pushingState = Returned (VNum 1) pushed"
  by (simp add: push_defs track_defs model_defs config_defs)

lemma pushed_facts:
  "deps (effects pushed 5) = []" "subs (depStore pushed 1) = [0]"
  "len (heap pushed 2) = 1" "getProp (heap pushed 2) (KIdx 0) = VNum 7"
  "counterAt 100 pushed = 2"
  by (simp_all add: push_defs track_defs model_defs config_defs)

lemma pushedUnpaused_facts:
  "deps (effects pushedUnpaused 5) = [1]" "subs (depStore pushedUnpaused 1) = [0, 5]"
  by (simp_all add: push_defs track_defs model_defs config_defs)

text \<open>
  Effect 5 calls \<^verbatim>\<open>arr.push(7)\<close> while effect 0 watches the array. Through the
  instrumented method the element is stored, the new length 1 is returned, effect 0 has
  re-run, the tracking flag and
  stack are as before, and effect 5 has gained no dependency: the cell of \<^verbatim>\<open>length\<close>
  holds effect 0 only. The same steps without the pause would have put effect 5 into the
  cell of \<^verbatim>\<open>length\<close>.
\<close>

theorem lengthAltering_pauses_tracking_witness:
  "othersKeepTracking pushSteps \<and> shouldTrack pushingState \<and> trackStack pushingState = [] \<and>
   lengthAltering (arrayMethod pushSteps pushResult) pushingState = Returned (VNum 1) pushed \<and>
   shouldTrack pushed \<and> trackStack pushed = [] \<and>
   len (heap pushed 2) = 1 \<and> getProp (heap pushed 2) (KIdx 0) = VNum 7 \<and>
   counterAt 100 pushed = 2 \<and>
   deps (effects pushingState 5) = [] \<and> deps (effects pushed 5) = [] \<and>
   subs (depStore pushed 1) = [0] \<and>
   deps (effects pushedUnpaused 5) = [1] \<and> subs (depStore pushedUnpaused 1) = [0, 5]"
proof -
  note k = pushSteps_keepTracking
  note T = lengthAltering_pauses_tracking [of pushingState "arrayMethod pushSteps pushResult"
      pushSteps pushResult, THEN conjunct2, THEN conjunct2, THEN conjunct1, THEN mp, OF k]
  have "shouldTrack pushed = shouldTrack pushingState \<and> trackStack pushed = trackStack pushingState"
    using T [THEN conjunct2, THEN conjunct2, THEN conjunct2, THEN spec, THEN spec, THEN mp,
        OF pushed_result] .
  then have r: "shouldTrack pushed" "trackStack pushed = []"
    using pushingState_facts(1,2) by simp_all
  show ?thesis
    by (intro conjI)
       (rule k, rule pushingState_facts(1), rule pushingState_facts(2), rule pushed_result,
        rule r(1), rule r(2), rule pushed_facts(3), rule pushed_facts(4), rule pushed_facts(5),
        rule pushingState_facts(4), rule pushed_facts(1), rule pushed_facts(2),
        rule pushedUnpaused_facts(1), rule pushedUnpaused_facts(2))
qed

lemma validatedPushing_facts:
  "shouldTrack validatedPushing" "trackStack validatedPushing = []"
  "activeEffect validatedPushing = Some 5" "counterAt 100 validatedPushing = 1"
  by (simp_all add: validatedPushing_def validatingEnv_def push_defs track_defs model_defs config_defs)

lemma validatedPushing_throws:
  "\<exists>s'. lengthAltering (arrayMethod validatedSteps pushResult) validatedPushing =
          Threw (VStr ''invalid'') s' \<and>
        \<not> shouldTrack s' \<and> trackStack s' = [True] \<and> activeEffect s' = Some 5 \<and>
        getProp (heap s' 2) (KIdx 0) = VNum 7 \<and>
        track 2 GET (KIdx 0) s' = Returned () s'"
  by (simp add: validatedPushing_def validatedSteps_def validatingEnv_def push_defs track_defs model_defs config_defs)

text \<open>
  C8. The instrumented length-altering methods switch the tracking flag off before the
  built-in method is applied and call \<^verbatim>\<open>resetTracking\<close> after it, but not in a
  \<^verbatim>\<open>finally\<close> block as \<^verbatim>\<open>ReactiveEffect.run\<close> does for the same flag. So the flag is
  not restored when the built-in method throws. Effect 5 calls \<^verbatim>\<open>arr.push(7)\<close> while
  effect 0, which watches the length of the array, throws on an array that is not empty:
  storing the element re-runs effect 0, its exception leaves the instrumented method
  before \<^verbatim>\<open>resetTracking\<close>, and the flag, on before the call, is off after it, with the
  saved entry still on the stack. A read that effect 5 makes after catching the exception
  is not tracked.
\<close>

theorem lengthAltering_throw_skips_reset:
  "shouldTrack validatedPushing \<and> trackStack validatedPushing = [] \<and>
   activeEffect validatedPushing = Some 5 \<and>
   (\<exists>s'. lengthAltering (arrayMethod validatedSteps pushResult) validatedPushing =
           Threw (VStr ''invalid'') s' \<and>
         \<not> shouldTrack s' \<and> trackStack s' = [True] \<and> activeEffect s' = Some 5 \<and>
         getProp (heap s' 2) (KIdx 0) = VNum 7 \<and>
         track 2 GET (KIdx 0) s' = Returned () s')"
  using validatedPushing_facts(1,2,3) validatedPushing_throws by blast

end
